theory Spec2Isabelle
  imports Main
begin

text \<open>
  The extraction engine of the GitHub extractor's content script: the link collector
  \<open>extractLinks\<close>, the number parser \<open>extractNumber\<close>, the table \<open>EXTRACTORS\<close>, the
  generic extractor \<open>genericExtract\<close>, the classifier \<open>detectPage\<close> with its table
  \<open>PAGE_RULES\<close>, \<open>getContextInfo\<close> and the orchestrator \<open>extractItems\<close>, as they
  stand in \<^verbatim>\<open>src/unnamed/part_000\<close>, lines 19 to 420. The file
  \<^verbatim>\<open>src/unnamed/part_001\<close> holds two other revisions of the same script.
\<close>

section \<open>JavaScript strings\<close>

text \<open>
  A JavaScript string is modelled as a HOL \<open>string\<close>; a character stands for one code
  unit in the Latin-1 range. \<open>String.prototype.trim\<close> removes white space and line
  terminators from both ends; in this range these are TAB, LF, VT, FF, CR, SP and NBSP.
\<close>

definition isWhiteSpace :: "char \<Rightarrow> bool" where
  "isWhiteSpace c =
     (c \<in> set [CHR 0x09, CHR 0x0A, CHR 0x0B, CHR 0x0C, CHR 0x0D, CHR 0x20, CHR 0xA0])"

definition trim :: "string \<Rightarrow> string" where
  "trim s = rev (dropWhile isWhiteSpace (rev (dropWhile isWhiteSpace s)))"

text \<open>\<open>Array.prototype.join\<close> on an array of strings.\<close>

fun join :: "string \<Rightarrow> string list \<Rightarrow> string" where
  "join sep [] = []"
| "join sep [x] = x"
| "join sep (x # y # ys) = x @ sep @ join sep (y # ys)"

section \<open>Regular expressions\<close>

text \<open>
  The fragment of ECMAScript regular expressions that the content script uses: literal
  text, the classes \<open>\d\<close> and \<open>[^/]\<close>, \<open>+\<close> on a class, \<open>?\<close>, alternation, sequence,
  the assertions \<open>^\<close>, \<open>$\<close> and \<open>\b\<close>, capture groups, and the flag \<open>i\<close>.
  The matcher is a backtracking matcher: it returns every way the pattern can match at
  the current position, in the order in which the engine would try them (a greedy
  quantifier first tries the longest repetition).
\<close>

datatype cclass = Digit | NotSlash

datatype regex =
    Lit string
  | Plus cclass
  | Opt regex
  | Alt regex regex
  | Seq regex regex
  | Bol
  | Eol
  | WordB
  | Cap nat regex

fun Seqs :: "regex list \<Rightarrow> regex" where
  "Seqs [] = Lit []"
| "Seqs [r] = r"
| "Seqs (r # rs) = Seq r (Seqs rs)"

fun Alts :: "regex list \<Rightarrow> regex" where
  "Alts [] = Lit []"
| "Alts [r] = r"
| "Alts (r # rs) = Alt r (Alts rs)"

datatype RegExp = RegExp (source: regex) (ignoreCase: bool)

definition isDigit :: "char \<Rightarrow> bool" where
  "isDigit c = (c \<in> set ''0123456789'')"

definition isWordChar :: "char \<Rightarrow> bool" where
  "isWordChar c =
     (c \<in> set ''abcdefghijklmnopqrstuvwxyzABCDEFGHIJKLMNOPQRSTUVWXYZ0123456789_'')"

fun in_class :: "cclass \<Rightarrow> char \<Rightarrow> bool" where
  "in_class Digit c = isDigit c"
| "in_class NotSlash c = (c \<noteq> CHR ''/'')"

text \<open>
  Under the flag \<open>i\<close> two characters match when their canonical forms agree. The
  patterns of the script hold ASCII letters only, against which exactly the two cases
  of the same ASCII letter match.
\<close>

definition canonicalize :: "bool \<Rightarrow> char \<Rightarrow> char" where
  "canonicalize ic c =
     (if ic then
        (case map_of (zip ''abcdefghijklmnopqrstuvwxyz'' ''ABCDEFGHIJKLMNOPQRSTUVWXYZ'') c of
           Some u \<Rightarrow> u
         | None \<Rightarrow> c)
      else c)"

text \<open>
  A matcher state: the character just before the current position (\<open>None\<close> at the start
  of the input), the input still to be read, and the captures made so far.
\<close>

record mstate =
  prev :: "char option"
  rest :: string
  caps :: "(nat \<times> string) list"

fun starts_with :: "bool \<Rightarrow> string \<Rightarrow> string \<Rightarrow> bool" where
  "starts_with ic [] s = True"
| "starts_with ic (p # ps) [] = False"
| "starts_with ic (p # ps) (c # cs) =
     (canonicalize ic p = canonicalize ic c \<and> starts_with ic ps cs)"

fun advance :: "nat \<Rightarrow> mstate \<Rightarrow> mstate" where
  "advance 0 st = st"
| "advance (Suc n) st =
     (case rest st of
        [] \<Rightarrow> st
      | c # cs \<Rightarrow> advance n (st\<lparr>prev := Some c, rest := cs\<rparr>))"

definition isWordOpt :: "char option \<Rightarrow> bool" where
  "isWordOpt c = (case c of None \<Rightarrow> False | Some x \<Rightarrow> isWordChar x)"

definition nextChar :: "mstate \<Rightarrow> char option" where
  "nextChar st = (case rest st of [] \<Rightarrow> None | c # cs \<Rightarrow> Some c)"

fun rmatch :: "bool \<Rightarrow> regex \<Rightarrow> mstate \<Rightarrow> mstate list" where
  "rmatch ic (Lit l) st =
     (if starts_with ic l (rest st) then [advance (length l) st] else [])"
| "rmatch ic (Plus c) st =
     map (\<lambda>k. advance k st) (rev [1 ..< Suc (length (takeWhile (in_class c) (rest st)))])"
| "rmatch ic (Opt r) st = rmatch ic r st @ [st]"
| "rmatch ic (Alt a b) st = rmatch ic a st @ rmatch ic b st"
| "rmatch ic (Seq a b) st = concat (map (rmatch ic b) (rmatch ic a st))"
| "rmatch ic Bol st = (if prev st = None then [st] else [])"
| "rmatch ic Eol st = (if rest st = [] then [st] else [])"
| "rmatch ic WordB st =
     (if isWordOpt (prev st) \<noteq> isWordOpt (nextChar st) then [st] else [])"
| "rmatch ic (Cap k r) st =
     map (\<lambda>st'. st'\<lparr>caps := (k, take (length (rest st) - length (rest st')) (rest st)) # caps st'\<rparr>)
       (rmatch ic r st)"

text \<open>
  \<open>RegExp.prototype.exec\<close> without the flags \<open>g\<close> and \<open>y\<close>: the match is tried at every
  position from the left, the end of the input included, and the first success wins.
  No pattern of the script has one of these flags, so no call reads or writes
  \<open>lastIndex\<close>.
\<close>

fun exec_from :: "RegExp \<Rightarrow> char option \<Rightarrow> string \<Rightarrow> mstate option" where
  "exec_from re p [] =
     (case rmatch (ignoreCase re) (source re) \<lparr>prev = p, rest = [], caps = []\<rparr> of
        [] \<Rightarrow> None
      | m # ms \<Rightarrow> Some m)"
| "exec_from re p (c # cs) =
     (case rmatch (ignoreCase re) (source re) \<lparr>prev = p, rest = c # cs, caps = []\<rparr> of
        [] \<Rightarrow> exec_from re (Some c) cs
      | m # ms \<Rightarrow> Some m)"

definition exec :: "RegExp \<Rightarrow> string \<Rightarrow> mstate option" where
  "exec re s = exec_from re None s"

definition test :: "RegExp \<Rightarrow> string \<Rightarrow> bool" where
  "test re s = (exec re s \<noteq> None)"

text \<open>
  \<open>String.prototype.match\<close> with a pattern without the flag \<open>g\<close>: \<open>null\<close>, or the groups
  of the first match (a group that took no part in the match is \<open>undefined\<close>).
\<close>

definition str_match :: "string \<Rightarrow> RegExp \<Rightarrow> (nat \<Rightarrow> string option) option" where
  "str_match s re = map_option (\<lambda>m. map_of (caps m)) (exec re s)"

section \<open>The content script: number parsing\<close>

text \<open>The pattern \<^verbatim>\<open>/\/(?:pull|issues)\/(\d+)/\<close>.\<close>

definition numberRe :: RegExp where
  "numberRe =
     RegExp (Seqs [Lit ''/'', Alts [Lit ''pull'', Lit ''issues''], Lit ''/'', Cap 1 (Plus Digit)]) False"

definition extractNumber :: "string \<Rightarrow> string option" where
  "extractNumber h =
     (case str_match h numberRe of
        None \<Rightarrow> None
      | Some m \<Rightarrow> Some (''#'' @ (case m 1 of Some d \<Rightarrow> d | None \<Rightarrow> ''undefined'')))"

section \<open>The browser environment\<close>

text \<open>
  What the script reads from the page. A \<open>URL\<close> carries the components that the script
  reads from \<open>window.location\<close> and from the objects built by \<open>new URL\<close>. The
  constructor \<open>new URL(url, base)\<close> belongs to the browser: it is a parameter of the
  model, and \<open>None\<close> stands for the \<open>TypeError\<close> it throws on an input that is not a
  valid URL. An element answers the queries the script makes of it; a document answers
  \<open>querySelectorAll\<close> with the matching elements in document order.
\<close>

record URL =
  href :: string
  origin :: string
  pathname :: string
  search :: string

record element =
  attributes :: "(string \<times> string) list"
  textContent :: string
  classList :: "string list"
  closest :: "string \<Rightarrow> bool"

definition getAttribute :: "element \<Rightarrow> string \<Rightarrow> string option" where
  "getAttribute e name = map_of (attributes e) name"

definition hasAttribute :: "element \<Rightarrow> string \<Rightarrow> bool" where
  "hasAttribute e name = (getAttribute e name \<noteq> None)"

definition contains :: "string list \<Rightarrow> string \<Rightarrow> bool" where
  "contains cl c = (c \<in> set cl)"

record document =
  querySelectorAll :: "string \<Rightarrow> element list"

record window =
  location :: URL
  document :: document
  new_URL :: "string \<Rightarrow> string \<Rightarrow> URL option"

datatype exn = TypeError

section \<open>The content script: the link collector\<close>

record item =
  title :: string
  url :: string
  number :: "string option"

text \<open>
  The body of the inner loop of \<open>extractLinks\<close>: \<open>Inr None\<close> is a \<open>continue\<close>,
  \<open>Inr (Some (h, it))\<close> adds \<open>h\<close> to \<open>seen\<close> and pushes \<open>it\<close>. The constructor call
  stands outside any \<open>try\<close>, so its \<open>TypeError\<close> leaves the function.
\<close>

definition links_body ::
  "window \<Rightarrow> RegExp option \<Rightarrow> string set \<Rightarrow> element \<Rightarrow> exn + (string \<times> item) option" where
  "links_body win hrefPattern seen link =
     (case getAttribute link ''href'' of
        None \<Rightarrow> Inr None
      | Some h \<Rightarrow>
          if h = [] \<or> h \<in> seen then Inr None
          else if (case hrefPattern of None \<Rightarrow> False | Some p \<Rightarrow> \<not> test p h) then Inr None
          else
            let t = trim (textContent link) in
            if t = [] then Inr None
            else
              (case new_URL win h (origin (location win)) of
                 None \<Rightarrow> Inl TypeError
               | Some u \<Rightarrow> Inr (Some (h, \<lparr>title = t, url = href u, number = extractNumber h\<rparr>))))"

fun links_loop ::
  "window \<Rightarrow> RegExp option \<Rightarrow> element list \<Rightarrow> string set \<times> item list
     \<Rightarrow> exn + string set \<times> item list" where
  "links_loop win hrefPattern [] (seen, acc) = Inr (seen, acc)"
| "links_loop win hrefPattern (link # links) (seen, acc) =
     (case links_body win hrefPattern seen link of
        Inl e \<Rightarrow> Inl e
      | Inr None \<Rightarrow> links_loop win hrefPattern links (seen, acc)
      | Inr (Some (h, it)) \<Rightarrow> links_loop win hrefPattern links (insert h seen, acc @ [it]))"

fun selectors_loop ::
  "window \<Rightarrow> document \<Rightarrow> RegExp option \<Rightarrow> string list \<Rightarrow> string set \<times> item list
     \<Rightarrow> exn + string set \<times> item list" where
  "selectors_loop win doc hrefPattern [] st = Inr st"
| "selectors_loop win doc hrefPattern (selector # selectors) st =
     (case links_loop win hrefPattern (querySelectorAll doc selector) st of
        Inl e \<Rightarrow> Inl e
      | Inr st' \<Rightarrow> selectors_loop win doc hrefPattern selectors st')"

definition extractLinks ::
  "window \<Rightarrow> document \<Rightarrow> string list \<Rightarrow> RegExp option \<Rightarrow> exn + item list" where
  "extractLinks win doc selectors hrefPattern =
     (case selectors_loop win doc hrefPattern selectors ({}, []) of
        Inl e \<Rightarrow> Inl e
      | Inr (seen, acc) \<Rightarrow> Inr acc)"

section \<open>The content script: the page-specific extractors\<close>

text \<open>
  Each entry of \<open>EXTRACTORS\<close> calls the link collector with its own selectors and its own
  filter on the \<open>href\<close> attribute (\<open>null\<close> for \<open>tags\<close> and \<open>gists\<close>). The table keeps the
  order of the object's keys, which is the order of \<open>Object.keys\<close>.
\<close>

text \<open>Filter: \<^verbatim>\<open>/\/(pull|issues)\/\d+/\<close>.\<close>

definition issueOrPr :: "window \<Rightarrow> document \<Rightarrow> exn + item list" where
  \<open>issueOrPr win doc =
     extractLinks win doc
       [''[id^="issue_"] .Link--primary'',
        ''[id^="issue_"] a.markdown-title'',
        ''[id^="issue_"] a.js-navigation-open'',
        ''.js-issue-row .Link--primary'',
        ''.js-issue-row a.markdown-title'',
        ''.js-issue-row a.js-navigation-open'',
        ''[data-testid="issue-row"] a[data-testid="issue-title-link"]'',
        ''[data-testid="list-row"] a[data-testid="issue-title-link"]'',
        ''[data-testid="list-row"] a[data-testid="pull-request-title-link"]'',
        ''.js-navigation-container .Link--primary[href*="/pull/"]'',
        ''.js-navigation-container .Link--primary[href*="/issues/"]'',
        ''.js-issue-row a[data-hovercard-type="pull_request"]'',
        ''.js-issue-row a[data-hovercard-type="issue"]'',
        ''.listRow a.Link--primary[href*="/issues/"]'',
        ''.listRow a.Link--primary[href*="/pull/"]'',
        ''div[data-id] a.Link--primary[href*="/issues/"]'',
        ''div[data-id] a.Link--primary[href*="/pull/"]'',
        ''a.markdown-title[href*="/pull/"]'',
        ''a.markdown-title[href*="/issues/"]'',
        ''a.js-navigation-open[href*="/pull/"]'',
        ''a.js-navigation-open[href*="/issues/"]'']
       (Some (RegExp (Seqs [Lit ''/'', Cap 1 (Alts [Lit ''pull'', Lit ''issues'']), Lit ''/'', Plus Digit]) False))\<close>

text \<open>Filter: \<^verbatim>\<open>/\/(pull|issues)\/\d+/\<close>.\<close>

definition milestone :: "window \<Rightarrow> document \<Rightarrow> exn + item list" where
  \<open>milestone win doc =
     extractLinks win doc
       [''[id^="issue_"] a.markdown-title'',
        ''[id^="issue_"] a.js-navigation-open'',
        ''[id^="issue_"] .Link--primary'',
        ''.js-issue-row a.markdown-title'',
        ''.js-issue-row a.js-navigation-open'',
        ''.js-issue-row .Link--primary'',
        ''[data-testid="issue-row"] a[data-testid="issue-title-link"]'',
        ''[data-testid="list-row"] a[data-testid="issue-title-link"]'',
        ''[data-testid="list-row"] a[data-testid="pull-request-title-link"]'',
        ''div[data-id] a.Link--primary[href*="/issues/"]'',
        ''div[data-id] a.Link--primary[href*="/pull/"]'',
        ''a.markdown-title[href*="/pull/"]'',
        ''a.markdown-title[href*="/issues/"]'',
        ''a.js-navigation-open[href*="/pull/"]'',
        ''a.js-navigation-open[href*="/issues/"]'']
       (Some (RegExp (Seqs [Lit ''/'', Cap 1 (Alts [Lit ''pull'', Lit ''issues'']), Lit ''/'', Plus Digit]) False))\<close>

text \<open>Filter: \<^verbatim>\<open>/\/milestone\//\<close>.\<close>

definition milestonesList :: "window \<Rightarrow> document \<Rightarrow> exn + item list" where
  \<open>milestonesList win doc =
     extractLinks win doc
       [''a.Link--primary[href*='/milestone/']'',
        ''a[href*='/milestone/'].Link--primary'']
       (Some (RegExp (Lit ''/milestone/'') False))\<close>

text \<open>Filter: \<^verbatim>\<open>/\/projects\//\<close>.\<close>

definition projects :: "window \<Rightarrow> document \<Rightarrow> exn + item list" where
  \<open>projects win doc =
     extractLinks win doc
       [''a.Link--primary[href*='/projects/']'',
        ''a[href*='/projects/'].Link--primary'']
       (Some (RegExp (Lit ''/projects/'') False))\<close>

text \<open>Filter: \<^verbatim>\<open>/^\/[^/]+\/[^/]+\/?$/\<close>.\<close>

definition repositories :: "window \<Rightarrow> document \<Rightarrow> exn + item list" where
  \<open>repositories win doc =
     extractLinks win doc
       [''[itemprop="name codeRepository"] a'',
        ''a[itemprop="name codeRepository"]'',
        ''h3 a[href*="/"][data-hovercard-type="repository"]'',
        ''#user-repositories-list h3 a'',
        ''.org-repos h3 a'',
        ''.repo-list h3 a'',
        ''.search-title a[href*="/"]'',
        ''.d-block h3 a[href*="/"]'',
        ''article h3 a[href*="/"]'',
        ''h3 a.Link[href*="/"]'',
        ''a[data-hovercard-type="repository"]'']
       (Some (RegExp (Seqs [Bol, Lit ''/'', Plus NotSlash, Lit ''/'', Plus NotSlash, Opt (Lit ''/''), Eol]) False))\<close>

text \<open>Filter: \<^verbatim>\<open>/\/releases\/tag\//\<close>.\<close>

definition releases :: "window \<Rightarrow> document \<Rightarrow> exn + item list" where
  \<open>releases win doc =
     extractLinks win doc
       [''.release .Link--primary'',
        ''[data-testid="release-card"] a.Link--primary'',
        ''.Box-row h2 a'',
        ''a[href*="/releases/tag/"]'']
       (Some (RegExp (Lit ''/releases/tag/'') False))\<close>

text \<open>Filter: \<^verbatim>\<open>null\<close>.\<close>

definition tags :: "window \<Rightarrow> document \<Rightarrow> exn + item list" where
  \<open>tags win doc =
     extractLinks win doc
       [''.Box-row a.Link--primary[href*="/tree/"]'',
        ''.Box-row h4 a'',
        ''a.Link--primary[href*="/releases/tag/"]'']
       None\<close>

text \<open>Filter: \<^verbatim>\<open>/\/tree\//\<close>.\<close>

definition branches :: "window \<Rightarrow> document \<Rightarrow> exn + item list" where
  \<open>branches win doc =
     extractLinks win doc
       [''.branch-name a'',
        ''a[href*="/tree/"].branch-name'',
        ''.Box-row a.Link--primary[href*="/tree/"]'']
       (Some (RegExp (Lit ''/tree/'') False))\<close>

text \<open>Filter: \<^verbatim>\<open>/\/discussions\/\d+/\<close>.\<close>

definition discussions :: "window \<Rightarrow> document \<Rightarrow> exn + item list" where
  \<open>discussions win doc =
     extractLinks win doc
       [''a[data-hovercard-type="discussion"]'',
        ''.Link--primary[href*="/discussions/"]'']
       (Some (RegExp (Seqs [Lit ''/discussions/'', Plus Digit]) False))\<close>

text \<open>Filter: \<^verbatim>\<open>/\/commit\//\<close>.\<close>

definition commits :: "window \<Rightarrow> document \<Rightarrow> exn + item list" where
  \<open>commits win doc =
     extractLinks win doc
       [''a.Link--primary[href*="/commit/"]'',
        ''.js-commits-list-item a.Link--primary'',
        ''.TimelineItem a.Link--primary[href*="/commit/"]'']
       (Some (RegExp (Lit ''/commit/'') False))\<close>

text \<open>Filter: \<^verbatim>\<open>/\/actions\/runs\//\<close>.\<close>

definition actions :: "window \<Rightarrow> document \<Rightarrow> exn + item list" where
  \<open>actions win doc =
     extractLinks win doc
       [''.Box-row a.Link--primary[href*="/actions/runs/"]'',
        ''a[href*="/actions/runs/"].Link--primary'']
       (Some (RegExp (Lit ''/actions/runs/'') False))\<close>

text \<open>Filter: \<^verbatim>\<open>/\/packages\//\<close>.\<close>

definition packages :: "window \<Rightarrow> document \<Rightarrow> exn + item list" where
  \<open>packages win doc =
     extractLinks win doc
       [''a.Link--primary[href*="/packages/"]'']
       (Some (RegExp (Lit ''/packages/'') False))\<close>

text \<open>Filter: \<^verbatim>\<open>null\<close>.\<close>

definition gists :: "window \<Rightarrow> document \<Rightarrow> exn + item list" where
  \<open>gists win doc =
     extractLinks win doc
       [''.gist-snippet .Link--primary'',
        ''a.Link--primary[href*="gist.github.com"]'',
        ''.css-truncate a[href*="/"]'']
       None\<close>

definition EXTRACTORS :: "(string \<times> (window \<Rightarrow> document \<Rightarrow> exn + item list)) list" where
  "EXTRACTORS =
     [(''issueOrPr'', issueOrPr),
      (''milestone'', milestone),
      (''milestonesList'', milestonesList),
      (''projects'', projects),
      (''repositories'', repositories),
      (''releases'', releases),
      (''tags'', tags),
      (''branches'', branches),
      (''discussions'', discussions),
      (''commits'', commits),
      (''actions'', actions),
      (''packages'', packages),
      (''gists'', gists)]"

section \<open>The content script: the generic fallback extractor\<close>

text \<open>
  The body of the loop of \<open>genericExtract\<close>: \<open>None\<close> is a \<open>continue\<close>, \<open>Some (h, it)\<close> adds
  \<open>h\<close> to \<open>seen\<close> and pushes \<open>it\<close>. Here the constructor call stands in a \<open>try\<close> whose
  \<open>catch\<close> continues with the next element. The patterns are \<^verbatim>\<open>/^#/\<close>,
  \<^verbatim>\<open>/^\/(settings|login|signup|features|pricing|enterprise|sponsors|about|security|notifications|new|codespaces)\b/\<close>
  and \<^verbatim>\<open>/\.(png|jpg|svg|gif|ico|css|js)$/i\<close>.
\<close>

definition generic_body :: "window \<Rightarrow> string set \<Rightarrow> element \<Rightarrow> (string \<times> item) option" where
  \<open>generic_body win seen link =
     (let currentPath = pathname (location win) in
      case getAttribute link ''href'' of
        None \<Rightarrow> None
      | Some h \<Rightarrow>
          if h = [] \<or> h \<in> seen then None
          else if h = ''#'' \<or> h = currentPath then None
          else if test (RegExp (Seqs [Bol, Lit ''#'']) False) h then None
          else
            (case new_URL win h (origin (location win)) of
               None \<Rightarrow> None
             | Some fullUrl \<Rightarrow>
                 if origin fullUrl \<noteq> origin (location win) then None
                 else
                   let path = pathname fullUrl in
                   if test (RegExp (Seqs [Bol, Lit ''/'',
                         Cap 1 (Alts (map Lit [''settings'', ''login'', ''signup'', ''features'',
                           ''pricing'', ''enterprise'', ''sponsors'', ''about'', ''security'',
                           ''notifications'', ''new'', ''codespaces''])), WordB]) False) path
                     then None
                   else if test (RegExp (Seqs [Lit ''.'',
                         Cap 1 (Alts (map Lit [''png'', ''jpg'', ''svg'', ''gif'', ''ico'', ''css'',
                           ''js''])), Eol]) True) path
                     then None
                   else
                     let t = trim (textContent link) in
                     if t = [] \<or> length t < 3 \<or> length t > 300 then None
                     else
                       let isTitle =
                         (contains (classList link) ''Link--primary'' \<or>
                          contains (classList link) ''markdown-title'' \<or>
                          contains (classList link) ''js-navigation-open'' \<or>
                          hasAttribute link ''data-hovercard-type'' \<or>
                          closest link ''h1, h2, h3, h4'' \<or>
                          closest link
                            ''.Box-row, [role='row'], .js-issue-row, [id^='issue_'], [data-testid], article'')
                       in
                       if \<not> isTitle then None
                       else Some (h, \<lparr>title = t, url = href fullUrl, number = extractNumber h\<rparr>)))\<close>

fun generic_loop :: "window \<Rightarrow> element list \<Rightarrow> string set \<times> item list \<Rightarrow> string set \<times> item list" where
  "generic_loop win [] (seen, acc) = (seen, acc)"
| "generic_loop win (link # links) (seen, acc) =
     (case generic_body win seen link of
        None \<Rightarrow> generic_loop win links (seen, acc)
      | Some (h, it) \<Rightarrow> generic_loop win links (insert h seen, acc @ [it]))"

definition generic_selectors :: "string list" where
  \<open>generic_selectors =
       [''a.Link--primary'',
        ''a.markdown-title'',
        ''a.js-navigation-open'',
        ''a[data-hovercard-type]'',
        ''.Box-row a[href^="/"]'',
        ''[role="row"] a[href^="/"]'',
        ''[id^="issue_"] a[href^="/"]'',
        ''.js-issue-row a[href^="/"]'',
        ''[data-testid] a[href^="/"]'',
        ''h1 a[href^="/"]'',
        ''h2 a[href^="/"]'',
        ''h3 a[href^="/"]'',
        ''h4 a[href^="/"]'',
        ''li a[href^="/"]'',
        ''article a[href^="/"]'']\<close>

definition genericExtract :: "window \<Rightarrow> document \<Rightarrow> item list" where
  "genericExtract win doc =
     (let candidates = querySelectorAll doc (join '', '' generic_selectors) in
      snd (generic_loop win candidates ({}, [])))"

section \<open>The generic extractor of the older revision\<close>



definition generic_selectors_old :: "string list" where
  \<open>generic_selectors_old =
       [''a.Link--primary'',
        ''.Box-row a[href^="/"]'',
        ''li a[href^="/"]'',
        ''[role="row"] a[href^="/"]'',
        ''a[data-hovercard-type]'',
        ''h3 a[href^="/"]'',
        ''h4 a[href^="/"]'']\<close>


section \<open>The content script: page detection\<close>

record PageRule =
  pattern :: RegExp
  kind :: "string option"
  label :: string

text \<open>The field \<open>kind\<close> is the property \<open>type\<close> of a rule and of the detected page.\<close>

definition PAGE_RULES :: "PageRule list" where
  "PAGE_RULES =
     [\<lparr>pattern = RegExp (Seqs [Lit ''/milestones'', Opt (Lit ''/''), Eol]) False,
        kind = Some ''milestonesList'', label = ''Milestones''\<rparr>,
      \<lparr>pattern = RegExp (Seqs [Lit ''/milestone/'', Plus Digit]) False,
        kind = Some ''milestone'', label = ''Milestone''\<rparr>,
      \<lparr>pattern = RegExp (Seqs [Lit ''/pulls'', WordB]) False,
        kind = Some ''issueOrPr'', label = ''Pull Requests''\<rparr>,
      \<lparr>pattern = RegExp (Seqs [Lit ''/issues'', WordB]) False,
        kind = Some ''issueOrPr'', label = ''Issues''\<rparr>,
      \<lparr>pattern = RegExp (Seqs [Lit ''/projects'', WordB]) False,
        kind = Some ''projects'', label = ''Projects''\<rparr>,
      \<lparr>pattern = RegExp (Seqs [Lit ''/discussions'', WordB]) False,
        kind = Some ''discussions'', label = ''Discussions''\<rparr>,
      \<lparr>pattern = RegExp (Seqs [Lit ''/releases'', WordB]) False,
        kind = Some ''releases'', label = ''Releases''\<rparr>,
      \<lparr>pattern = RegExp (Seqs [Lit ''/tags'', WordB]) False,
        kind = Some ''tags'', label = ''Tags''\<rparr>,
      \<lparr>pattern = RegExp (Seqs [Lit ''/branches'', WordB]) False,
        kind = Some ''branches'', label = ''Branches''\<rparr>,
      \<lparr>pattern = RegExp (Seqs [Lit ''/commits'', WordB]) False,
        kind = Some ''commits'', label = ''Commits''\<rparr>,
      \<lparr>pattern = RegExp (Seqs [Lit ''/actions'', WordB]) False,
        kind = Some ''actions'', label = ''Actions''\<rparr>,
      \<lparr>pattern = RegExp (Seqs [Lit ''/packages'', WordB]) False,
        kind = Some ''packages'', label = ''Packages''\<rparr>,
      \<lparr>pattern = RegExp (Lit ''?tab=repositories'') False,
        kind = Some ''repositories'', label = ''Repositories''\<rparr>,
      \<lparr>pattern = RegExp (Seqs [Lit ''/orgs/'', Plus NotSlash, Lit ''/repositories'']) False,
        kind = Some ''repositories'', label = ''Repositories''\<rparr>,
      \<lparr>pattern = RegExp (Lit ''/search'') False,
        kind = None, label = ''Search Results''\<rparr>,
      \<lparr>pattern = RegExp (Lit ''/trending'') False,
        kind = Some ''repositories'', label = ''Trending''\<rparr>,
      \<lparr>pattern = RegExp (Lit ''/explore'') False,
        kind = Some ''repositories'', label = ''Explore''\<rparr>,
      \<lparr>pattern = RegExp (Lit ''/stars'') False,
        kind = Some ''repositories'', label = ''Stars''\<rparr>,
      \<lparr>pattern = RegExp (Lit ''gist.github.com'') False,
        kind = Some ''gists'', label = ''Gists''\<rparr>]"

record page =
  page_type :: "string option"
  page_label :: string

fun detect_loop :: "PageRule list \<Rightarrow> string \<Rightarrow> page" where
  "detect_loop [] full = \<lparr>page_type = None, page_label = ''Items''\<rparr>"
| "detect_loop (rule # rules) full =
     (if test (pattern rule) full
      then \<lparr>page_type = kind rule, page_label = label rule\<rparr>
      else detect_loop rules full)"

definition detectPage :: "window \<Rightarrow> page" where
  "detectPage win =
     (let path = pathname (location win);
          query = search (location win);
          full = path @ query
      in detect_loop PAGE_RULES full)"

text \<open>The pattern of \<open>getContextInfo\<close> is \<^verbatim>\<open>/^\/([^/]+)(?:\/([^/]+))?/\<close>.\<close>

record ContextInfo =
  owner :: string
  repo :: string

definition orEmpty :: "string option \<Rightarrow> string" where
  "orEmpty v = (case v of None \<Rightarrow> [] | Some s \<Rightarrow> s)"

definition getContextInfo :: "window \<Rightarrow> ContextInfo" where
  "getContextInfo win =
     (case str_match (pathname (location win))
             (RegExp (Seqs [Bol, Lit ''/'', Cap 1 (Plus NotSlash),
                            Opt (Seqs [Lit ''/'', Cap 2 (Plus NotSlash)])]) False) of
        Some m \<Rightarrow> \<lparr>owner = orEmpty (m 1), repo = orEmpty (m 2)\<rparr>
      | None \<Rightarrow> \<lparr>owner = [], repo = []\<rparr>)"

section \<open>The content script: the orchestrator\<close>

text \<open>
  The result of \<open>extractItems\<close>. The property \<open>repo\<close> is the field \<open>repoContext\<close>, the
  property \<open>url\<close> the field \<open>pageUrl\<close>; a property that the returned object does not
  have is \<open>None\<close>.
\<close>

record ExtractionResult =
  success :: bool
  pageType :: "string option"
  pageLabel :: "string option"
  repoContext :: ContextInfo
  items :: "item list"
  error :: "string option"
  pageUrl :: "string option"

text \<open>
  The loop over \<open>Object.keys(EXTRACTORS)\<close>: it stops at the first extractor that
  returns an item. Calling a missing entry would be a \<open>TypeError\<close>.
\<close>

fun try_all :: "string list \<Rightarrow> window \<Rightarrow> item list \<Rightarrow> exn + item list" where
  "try_all [] win acc = Inr acc"
| "try_all (key # keys) win acc =
     (case map_of EXTRACTORS key of
        None \<Rightarrow> Inl TypeError
      | Some extractor \<Rightarrow>
          (case extractor win (document win) of
             Inl e \<Rightarrow> Inl e
           | Inr acc' \<Rightarrow> if length acc' > 0 then Inr acc' else try_all keys win acc'))"

definition specific :: "window \<Rightarrow> page \<Rightarrow> exn + item list" where
  "specific win pg =
     (case page_type pg of
        None \<Rightarrow> Inr []
      | Some k \<Rightarrow>
          if k = [] then Inr []
          else
            (case map_of EXTRACTORS k of
               None \<Rightarrow> Inr []
             | Some extractor \<Rightarrow> extractor win (document win)))"

definition extractItems :: "window \<Rightarrow> exn + ExtractionResult" where
  "extractItems win =
     (let pg = detectPage win in
      case specific win pg of
        Inl e \<Rightarrow> Inl e
      | Inr acc1 \<Rightarrow>
          (case (if length acc1 = 0 then try_all (map fst EXTRACTORS) win acc1 else Inr acc1) of
             Inl e \<Rightarrow> Inl e
           | Inr acc2 \<Rightarrow>
               let acc3 = (if length acc2 = 0 then genericExtract win (document win) else acc2) in
               if length acc3 = 0 then
                 Inr \<lparr>success = False, pageType = None, pageLabel = None,
                      repoContext = getContextInfo win, items = [],
                      error = Some ''No extractable items found on this page.'',
                      pageUrl = None\<rparr>
               else
                 Inr \<lparr>success = True,
                      pageType = Some (case page_type pg of
                                         None \<Rightarrow> ''generic''
                                       | Some k \<Rightarrow> if k = [] then ''generic'' else k),
                      pageLabel = Some (page_label pg),
                      repoContext = getContextInfo win, items = acc3,
                      error = None,
                      pageUrl = Some (href (location win))\<rparr>))"

section \<open>Example pages\<close>

text \<open>
  The pages used in the examples below are pages of \<^verbatim>\<open>https://github.com\<close>. The table
  gives the result of \<open>new URL(u, "https://github.com")\<close> for each \<open>href\<close> that occurs in
  them: the serialised URL, its origin, its path and its query, or \<open>None\<close> where the
  constructor throws (\<^verbatim>\<open>https://\<close> has an empty host). No other \<open>href\<close> occurs in
  the example documents.
\<close>

definition gh :: "string \<Rightarrow> string \<Rightarrow> URL" where
  "gh p q = \<lparr>href = ''https://github.com'' @ p @ q, origin = ''https://github.com'',
             pathname = p, search = q\<rparr>"

definition example_URLs :: "(string \<times> URL option) list" where
  "example_URLs =
     [(''/acme/widgets/pull/1'', Some (gh ''/acme/widgets/pull/1'' [])),
      (''/acme/widgets/pull/2'', Some (gh ''/acme/widgets/pull/2'' [])),
      (''https://github.com/acme/widgets/pull/1'', Some (gh ''/acme/widgets/pull/1'' [])),
      (''https://'', None),
      (''/acme/widgets/releases/tag/v1.1'', Some (gh ''/acme/widgets/releases/tag/v1.1'' [])),
      (''/acme/widgets/labels/bug?from=/pull/5'',
         Some (gh ''/acme/widgets/labels/bug'' ''?from=/pull/5'')),
      (''/acme/widgets/labels?page=2'', Some (gh ''/acme/widgets/labels'' ''?page=2'')),
      (''/octocat'', Some (gh ''/octocat'' [])),
      (''https://mirror.example/acme/widgets/tree/v1.0'',
         Some \<lparr>href = ''https://mirror.example/acme/widgets/tree/v1.0'',
               origin = ''https://mirror.example'',
               pathname = ''/acme/widgets/tree/v1.0'', search = []\<rparr>)]"

definition example_URL :: "string \<Rightarrow> string \<Rightarrow> URL option" where
  "example_URL u base =
     (if base = ''https://github.com''
      then (case map_of example_URLs u of Some r \<Rightarrow> r | None \<Rightarrow> None)
      else None)"

text \<open>
  An anchor element: its \<open>href\<close> and \<open>data-hovercard-type\<close> attributes, its text, its
  classes, and the selector lists for which \<open>closest\<close> finds an element. A page: its
  path and query, and the answers of \<open>querySelectorAll\<close> (a selector that is not listed
  matches nothing).
\<close>

definition anchor :: "(string \<times> string) list \<Rightarrow> string \<Rightarrow> string list \<Rightarrow> string list \<Rightarrow> element" where
  "anchor attrs text classes found =
     \<lparr>attributes = attrs, textContent = text, classList = classes,
      closest = (\<lambda>sel. sel \<in> set found)\<rparr>"

definition github_page :: "string \<Rightarrow> string \<Rightarrow> (string \<times> element list) list \<Rightarrow> window" where
  "github_page p q answers =
     \<lparr>location = gh p q,
      document = \<lparr>querySelectorAll =
        (\<lambda>sel. case map_of answers sel of Some es \<Rightarrow> es | None \<Rightarrow> [])\<rparr>,
      new_URL = example_URL\<rparr>"

definition in_row :: "string list" where
  \<open>in_row = [''.Box-row, [role='row'], .js-issue-row, [id^='issue_'], [data-testid], article'']\<close>

text \<open>
  A pull-request list with three rows
  \<^verbatim>\<open><div class="js-issue-row"><a class="Link--primary" href=H>T</a></div>\<close>,
  the third linking where the first links.
\<close>

definition pr_row :: "string \<Rightarrow> string \<Rightarrow> element" where
  "pr_row h text = anchor [(''href'', h)] text [''Link--primary''] in_row"

definition scenario_A :: window where
  "scenario_A =
     (let rows = [pr_row ''/acme/widgets/pull/1'' ''Fix bug'',
                  pr_row ''/acme/widgets/pull/2'' ''Add feature'',
                  pr_row ''/acme/widgets/pull/1'' ''Fix bug'']
      in github_page ''/acme/widgets/pulls'' []
           [(''.js-issue-row .Link--primary'', rows), (join '', '' generic_selectors, rows)])"

text \<open>
  The same list with two rows, one written with a path and one with the full address of
  the same pull request.
\<close>

definition two_spellings :: window where
  "two_spellings =
     (let rows = [pr_row ''/acme/widgets/pull/1'' ''Fix bug'',
                  pr_row ''https://github.com/acme/widgets/pull/1'' ''Fix bug'']
      in github_page ''/acme/widgets/pulls'' []
           [(''.js-issue-row .Link--primary'', rows), (join '', '' generic_selectors, rows)])"

text \<open>
  The same list as \<open>scenario_A\<close> as another rendering of the page could show it: more
  classes on the anchors and white space around their text.
\<close>

definition pr_row' :: "string \<Rightarrow> string \<Rightarrow> element" where
  "pr_row' h text =
     anchor [(''href'', h), (''id'', ''issue-link'')] (''  '' @ text @ '' '')
       [''Link--primary'', ''v-align-middle''] in_row"

definition scenario_A' :: window where
  "scenario_A' =
     (let rows = [pr_row' ''/acme/widgets/pull/1'' ''Fix bug'',
                  pr_row' ''/acme/widgets/pull/2'' ''Add feature'',
                  pr_row' ''/acme/widgets/pull/1'' ''Fix bug'']
      in github_page ''/acme/widgets/pulls'' []
           [(''.js-issue-row .Link--primary'', rows), (join '', '' generic_selectors, rows)])"

text \<open>
  A tag list with two rows
  \<^verbatim>\<open><div class="Box-row"><h4><a class="Link--primary" href=H>T</a></h4></div>\<close>;
  the link of the first row has no host.
\<close>

definition tag_row :: "string \<Rightarrow> string \<Rightarrow> element" where
  "tag_row h text = anchor [(''href'', h)] text [''Link--primary''] (''h1, h2, h3, h4'' # in_row)"

definition broken_link :: window where
  \<open>broken_link =
     (let v10 = tag_row ''https://'' ''v1.0'';
          v11 = tag_row ''/acme/widgets/releases/tag/v1.1'' ''v1.1''
      in github_page ''/acme/widgets/tags'' []
           [(''.Box-row h4 a'', [v10, v11]),
            (''a[href*="/releases/tag/"]'', [v11]),
            (''a.Link--primary[href*="/releases/tag/"]'', [v11]),
            (join '', '' generic_selectors, [v10, v11])])\<close>

text \<open>The same tag list without the first row.\<close>

definition sound_link :: window where
  \<open>sound_link =
     (let v11 = tag_row ''/acme/widgets/releases/tag/v1.1'' ''v1.1''
      in github_page ''/acme/widgets/tags'' []
           [(''.Box-row h4 a'', [v11]),
            (''a[href*="/releases/tag/"]'', [v11]),
            (''a.Link--primary[href*="/releases/tag/"]'', [v11]),
            (join '', '' generic_selectors, [v11])])\<close>

text \<open>The second row alone, on the page of the pull requests.\<close>

definition release_on_pulls :: window where
  \<open>release_on_pulls =
     (let v11 = tag_row ''/acme/widgets/releases/tag/v1.1'' ''v1.1''
      in github_page ''/acme/widgets/pulls'' []
           [(''.Box-row h4 a'', [v11]),
            (''a[href*="/releases/tag/"]'', [v11]),
            (''a.Link--primary[href*="/releases/tag/"]'', [v11]),
            (join '', '' generic_selectors, [v11])])\<close>

text \<open>
  A tag list whose one row links to another site (the \<open>href\<close> contains \<^verbatim>\<open>/tree/\<close>).
\<close>

definition foreign_link :: window where
  \<open>foreign_link =
     (let v10 = tag_row ''https://mirror.example/acme/widgets/tree/v1.0'' ''v1.0''
      in github_page ''/acme/widgets/tags'' []
           [(''.Box-row a.Link--primary[href*="/tree/"]'', [v10]),
            (''.Box-row h4 a'', [v10]),
            (join '', '' generic_selectors, [v10])])\<close>

text \<open>
  An issue list with one row whose link has a query that mentions a pull request.
\<close>

definition query_link :: window where
  "query_link =
     (let rows = [pr_row ''/acme/widgets/labels/bug?from=/pull/5'' ''Label bug'']
      in github_page ''/acme/widgets/issues'' []
           [(''.js-issue-row .Link--primary'', rows), (join '', '' generic_selectors, rows)])"

text \<open>
  The page of the labels, with
  \<^verbatim>\<open><div class="Box-row"><a href="/acme/widgets/labels?page=2">Next page</a></div>\<close>
  and \<^verbatim>\<open><a data-hovercard-type="user" href="/octocat">octocat</a>\<close>.
\<close>

definition in_row_old :: "string list" where
  \<open>in_row_old = [''.Box-row, [role='row'], li.Box-row, .js-issue-row, [data-testid]'']\<close>

definition labels_page :: window where
  "labels_page =
     (let next_page = anchor [(''href'', ''/acme/widgets/labels?page=2'')] ''Next page'' []
                        (in_row @ in_row_old);
          author = anchor [(''data-hovercard-type'', ''user''), (''href'', ''/octocat'')]
                     ''octocat'' [] []
      in github_page ''/acme/widgets/labels'' []
           [(join '', '' generic_selectors, [next_page, author]),
            (join '', '' generic_selectors_old, [next_page, author])])"


text \<open>
  The pull-request list of three rows, the first and the third with the same \<open>href\<close> and
  different texts; the rows are in a \<^verbatim>\<open>div\<close> of class \<^verbatim>\<open>js-issue-row\<close>.
\<close>

definition retitled :: window where
  "retitled =
     (let rows = [pr_row ''/acme/widgets/pull/1'' ''First title'',
                  pr_row ''/acme/widgets/pull/2'' ''Add feature'',
                  pr_row ''/acme/widgets/pull/1'' ''Second title'']
      in github_page ''/acme/widgets/pulls'' []
           [(''.js-issue-row .Link--primary'', rows), (join '', '' generic_selectors, rows)])"

text \<open>
  The page of a milestone, reached with a query that names the list of milestones, and
  the list of milestones with a slash at its end.
\<close>

definition milestone_with_query :: window where
  "milestone_with_query =
     github_page ''/acme/widgets/milestone/7'' ''?return_to=/acme/widgets/milestones'' []"

definition milestones_slash :: window where
  "milestones_slash = github_page ''/acme/widgets/milestones/'' [] []"

text \<open>A page without any link.\<close>

definition empty_page :: window where
  "empty_page = github_page ''/acme/widgets'' [] []"

section \<open>Notions used in the statements\<close>

text \<open>
  The \<open>href\<close> attributes of the elements that a list of selectors matches, and the
  serialised URL that the constructor makes of an \<open>href\<close> on a page.
\<close>

definition hrefs_of :: "document \<Rightarrow> string list \<Rightarrow> string list" where
  "hrefs_of doc sels =
     concat (map (\<lambda>sel. List.map_filter (\<lambda>link. getAttribute link ''href'')
                          (querySelectorAll doc sel)) sels)"

definition resolved :: "window \<Rightarrow> string \<Rightarrow> string option" where
  "resolved win h = map_option href (new_URL win h (origin (location win)))"

text \<open>
  Two elements look the same to the script when every query it makes of an element has
  the same answer on both.
\<close>

definition same_view :: "element \<Rightarrow> element \<Rightarrow> bool" where
  \<open>same_view a b =
     (getAttribute a ''href'' = getAttribute b ''href'' \<and>
      trim (textContent a) = trim (textContent b) \<and>
      contains (classList a) ''Link--primary'' = contains (classList b) ''Link--primary'' \<and>
      contains (classList a) ''markdown-title'' = contains (classList b) ''markdown-title'' \<and>
      contains (classList a) ''js-navigation-open'' = contains (classList b) ''js-navigation-open'' \<and>
      hasAttribute a ''data-hovercard-type'' = hasAttribute b ''data-hovercard-type'' \<and>
      closest a ''h1, h2, h3, h4'' = closest b ''h1, h2, h3, h4'' \<and>
      closest a ''.Box-row, [role='row'], .js-issue-row, [id^='issue_'], [data-testid], article'' =
      closest b ''.Box-row, [role='row'], .js-issue-row, [id^='issue_'], [data-testid], article'')\<close>

text \<open>
  What is left of a list when, of the elements with one key, only the first is kept.
\<close>

fun first_occurrences :: "('a \<Rightarrow> 'k) \<Rightarrow> 'a list \<Rightarrow> 'a list" where
  "first_occurrences key [] = []"
| "first_occurrences key (x # xs) =
     x # first_occurrences key (filter (\<lambda>y. key y \<noteq> key x) xs)"

text \<open>
  An item is made from a link when its title is the trimmed text of the link, its \<open>url\<close>
  the serialised URL that the \<open>href\<close> of the link resolves to, and its number the number
  that \<open>extractNumber\<close> reads off that \<open>href\<close>.
\<close>

definition made_from :: "window \<Rightarrow> item \<Rightarrow> element \<Rightarrow> bool" where
  "made_from win it link =
     (case getAttribute link ''href'' of
        None \<Rightarrow> False
      | Some h \<Rightarrow>
          (case new_URL win h (origin (location win)) of
             None \<Rightarrow> False
           | Some u \<Rightarrow>
               it = \<lparr>title = trim (textContent link), url = href u, number = extractNumber h\<rparr>))"

text \<open>
  The links that \<open>extractLinks\<close> takes when it has seen nothing: those with a non-empty
  \<open>href\<close> that passes the filter, and with a text that is not blank. The links that
  \<open>genericExtract\<close> takes when it has seen nothing are those its loop body does not skip.
\<close>

definition accepts :: "RegExp option \<Rightarrow> element \<Rightarrow> bool" where
  "accepts hrefPattern link =
     (case getAttribute link ''href'' of
        None \<Rightarrow> False
      | Some h \<Rightarrow>
          h \<noteq> [] \<and> (case hrefPattern of None \<Rightarrow> True | Some p \<Rightarrow> test p h) \<and>
          trim (textContent link) \<noteq> [])"

definition generic_accepts :: "window \<Rightarrow> element \<Rightarrow> bool" where
  "generic_accepts win link = (generic_body win {} link \<noteq> None)"

text \<open>
  The pattern of \<open>extractNumber\<close> without the matcher: the digits it captures when it
  matches at the start of a string, and those of its first match in a string.
\<close>

definition number_at :: "string \<Rightarrow> string option" where
  "number_at s =
     (if starts_with False ''/pull/'' s \<and> takeWhile isDigit (drop 6 s) \<noteq> []
        then Some (takeWhile isDigit (drop 6 s))
      else if starts_with False ''/issues/'' s \<and> takeWhile isDigit (drop 8 s) \<noteq> []
        then Some (takeWhile isDigit (drop 8 s))
      else None)"

fun first_number :: "string \<Rightarrow> string option" where
  "first_number [] = None"
| "first_number (c # cs) =
     (case number_at (c # cs) of Some d \<Rightarrow> Some d | None \<Rightarrow> first_number cs)"

section \<open>What the loops emit\<close>

text \<open>
  Every run of a collector loop emits a list of pairs of an \<open>href\<close> and an item: the
  \<open>href\<close>s are pairwise distinct and new to \<open>seen\<close>, and each pair is what the loop body
  makes of some element when it starts from the empty set.
\<close>

lemma links_body_seen:
  assumes "links_body win pat seen link = Inr (Some (h, it))"
  shows "h \<notin> seen" and "links_body win pat {} link = Inr (Some (h, it))"
  using assms
  by (auto simp: links_body_def Let_def split: option.splits if_splits)

lemma links_body_SomeD:
  assumes "links_body win pat seen link = Inr (Some (h, it))"
  shows "getAttribute link ''href'' = Some h \<and> h \<noteq> [] \<and>
     (\<forall>p. pat = Some p \<longrightarrow> test p h) \<and> trim (textContent link) \<noteq> [] \<and>
     (\<exists>u. new_URL win h (origin (location win)) = Some u \<and>
           it = \<lparr>title = trim (textContent link), url = href u, number = extractNumber h\<rparr>)"
  using assms
  by (auto simp: links_body_def Let_def split: option.splits if_splits)

lemma links_loop_trace:
  "links_loop win pat links (seen, acc) = Inr (seen', acc') \<Longrightarrow>
     \<exists>new. acc' = acc @ map snd new \<and> seen' = seen \<union> set (map fst new) \<and>
       distinct (map fst new) \<and> set (map fst new) \<inter> seen = {} \<and>
       (\<forall>x \<in> set new. \<exists>link \<in> set links. links_body win pat {} link = Inr (Some x))"
proof (induction links arbitrary: seen acc)
  case Nil
  then show ?case by (intro exI[of _ "[]"]) simp
next
  case (Cons link links)
  show ?case
  proof (cases "links_body win pat seen link")
    case (Inl e)
    with Cons.prems show ?thesis by simp
  next
    case (Inr r)
    show ?thesis
    proof (cases r)
      case None
      with Inr Cons.prems have "links_loop win pat links (seen, acc) = Inr (seen', acc')"
        by simp
      from Cons.IH[OF this] show ?thesis by auto
    next
      case (Some x)
      obtain h it where x: "x = (h, it)" by (cases x)
      from Some x Inr Cons.prems
      have "links_loop win pat links (insert h seen, acc @ [it]) = Inr (seen', acc')"
        by simp
      from Cons.IH[OF this] obtain new where new:
        "acc' = (acc @ [it]) @ map snd new" "seen' = insert h seen \<union> set (map fst new)"
        "distinct (map fst new)" "set (map fst new) \<inter> insert h seen = {}"
        "\<forall>x \<in> set new. \<exists>link \<in> set links. links_body win pat {} link = Inr (Some x)"
        by blast
      from Inr Some x have b: "links_body win pat seen link = Inr (Some (h, it))" by simp
      note b' = links_body_seen[OF b]
      show ?thesis
        using new b' by (intro exI[of _ "(h, it) # new"]) (auto simp: x)
    qed
  qed
qed

lemma selectors_loop_trace:
  "selectors_loop win doc pat sels (seen, acc) = Inr (seen', acc') \<Longrightarrow>
     \<exists>new. acc' = acc @ map snd new \<and> seen' = seen \<union> set (map fst new) \<and>
       distinct (map fst new) \<and> set (map fst new) \<inter> seen = {} \<and>
       (\<forall>x \<in> set new. \<exists>sel \<in> set sels. \<exists>link \<in> set (querySelectorAll doc sel).
           links_body win pat {} link = Inr (Some x))"
proof (induction sels arbitrary: seen acc)
  case Nil
  then show ?case by (intro exI[of _ "[]"]) simp
next
  case (Cons sel sels)
  from Cons.prems obtain s1 a1 where
    l: "links_loop win pat (querySelectorAll doc sel) (seen, acc) = Inr (s1, a1)"
    and r: "selectors_loop win doc pat sels (s1, a1) = Inr (seen', acc')"
    by (auto split: sum.splits)
  from links_loop_trace[OF l] obtain n1 where n1:
    "a1 = acc @ map snd n1" "s1 = seen \<union> set (map fst n1)"
    "distinct (map fst n1)" "set (map fst n1) \<inter> seen = {}"
    "\<forall>x \<in> set n1. \<exists>link \<in> set (querySelectorAll doc sel). links_body win pat {} link = Inr (Some x)"
    by blast
  from Cons.IH[OF r] obtain n2 where n2:
    "acc' = a1 @ map snd n2" "seen' = s1 \<union> set (map fst n2)"
    "distinct (map fst n2)" "set (map fst n2) \<inter> s1 = {}"
    "\<forall>x \<in> set n2. \<exists>sel \<in> set sels. \<exists>link \<in> set (querySelectorAll doc sel).
           links_body win pat {} link = Inr (Some x)"
    by blast
  show ?case
    using n1 n2 by (intro exI[of _ "n1 @ n2"]) (auto simp: Un_assoc)
qed

lemma extractLinks_trace:
  assumes "extractLinks win doc sels pat = Inr its"
  shows "\<exists>new. its = map snd new \<and> distinct (map fst new) \<and>
       (\<forall>x \<in> set new. \<exists>sel \<in> set sels. \<exists>link \<in> set (querySelectorAll doc sel).
           links_body win pat {} link = Inr (Some x))"
proof -
  from assms obtain seen' where
    "selectors_loop win doc pat sels ({}, []) = Inr (seen', its)"
    by (auto simp: extractLinks_def split: sum.splits prod.splits)
  from selectors_loop_trace[OF this] show ?thesis by auto
qed

lemma generic_body_eq:
  "generic_body win seen link =
     (case getAttribute link ''href'' of
        None \<Rightarrow> None
      | Some h \<Rightarrow> if h \<in> seen then None else generic_body win {} link)"
proof (cases "getAttribute link ''href''")
  case None
  then show ?thesis by (simp add: generic_body_def)
next
  case (Some h)
  show ?thesis
  proof (cases "h \<in> seen")
    case True
    with Some show ?thesis by (simp add: generic_body_def)
  next
    case False
    with Some show ?thesis by (simp add: generic_body_def)
  qed
qed

lemma generic_body_SomeD:
  assumes "generic_body win {} link = Some (h, it)"
  shows "getAttribute link ''href'' = Some h \<and>
     h \<noteq> [] \<and> h \<noteq> ''#'' \<and> h \<noteq> pathname (location win) \<and>
     3 \<le> length (trim (textContent link)) \<and> length (trim (textContent link)) \<le> 300 \<and>
     (\<exists>u. new_URL win h (origin (location win)) = Some u \<and>
           origin u = origin (location win) \<and>
           it = \<lparr>title = trim (textContent link), url = href u, number = extractNumber h\<rparr>)"
  using assms unfolding generic_body_def Let_def
  by (simp split: option.split_asm if_split_asm del: Seqs.simps Alts.simps list.map)

lemma generic_body_seen:
  assumes "generic_body win seen link = Some (h, it)"
  shows "h \<notin> seen" and "generic_body win {} link = Some (h, it)"
proof -
  from assms have s: "generic_body win seen link \<noteq> None" by simp
  then obtain h' where h': "getAttribute link ''href'' = Some h'" and n: "h' \<notin> seen"
    by (subst (asm) generic_body_eq) (auto split: option.splits if_splits)
  from h' n assms show g: "generic_body win {} link = Some (h, it)"
    by (subst (asm) generic_body_eq) simp
  from generic_body_SomeD[OF g] h' n show "h \<notin> seen" by simp
qed

lemma generic_loop_trace:
  "generic_loop win links (seen, acc) = (seen', acc') \<Longrightarrow>
     \<exists>new. acc' = acc @ map snd new \<and> seen' = seen \<union> set (map fst new) \<and>
       distinct (map fst new) \<and> set (map fst new) \<inter> seen = {} \<and>
       (\<forall>x \<in> set new. \<exists>link \<in> set links. generic_body win {} link = Some x)"
proof (induction links arbitrary: seen acc)
  case Nil
  then show ?case by (intro exI[of _ "[]"]) simp
next
  case (Cons link links)
  show ?case
  proof (cases "generic_body win seen link")
    case None
    with Cons.prems have "generic_loop win links (seen, acc) = (seen', acc')"
      by simp
    from Cons.IH[OF this] show ?thesis by auto
  next
    case (Some x)
    obtain h it where x: "x = (h, it)" by (cases x)
    from Some x Cons.prems
    have "generic_loop win links (insert h seen, acc @ [it]) = (seen', acc')"
      by simp
    from Cons.IH[OF this] obtain new where new:
      "acc' = (acc @ [it]) @ map snd new" "seen' = insert h seen \<union> set (map fst new)"
      "distinct (map fst new)" "set (map fst new) \<inter> insert h seen = {}"
      "\<forall>x \<in> set new. \<exists>link \<in> set links. generic_body win {} link = Some x"
      by blast
    from Some x have b: "generic_body win seen link = Some (h, it)" by simp
    note b' = generic_body_seen[OF b]
    show ?thesis
      using new b' by (intro exI[of _ "(h, it) # new"]) (auto simp: x)
  qed
qed

lemma genericExtract_trace:
  "\<exists>new. genericExtract win doc = map snd new \<and> distinct (map fst new) \<and>
       (\<forall>x \<in> set new. \<exists>link \<in> set (querySelectorAll doc (join '', '' generic_selectors)).
           generic_body win {} link = Some x)"
proof -
  obtain seen' acc' where
    g: "generic_loop win (querySelectorAll doc (join '', '' generic_selectors)) ({}, []) = (seen', acc')"
    by (cases "generic_loop win (querySelectorAll doc (join '', '' generic_selectors)) ({}, [])")
  from generic_loop_trace[OF g] g show ?thesis
    by (auto simp: genericExtract_def Let_def)
qed

lemma genericExtract_source:
  assumes "it \<in> set (genericExtract win doc)"
  shows "\<exists>link \<in> set (querySelectorAll doc (join '', '' generic_selectors)).
           \<exists>h. generic_body win {} link = Some (h, it)"
proof -
  from genericExtract_trace[of win doc] obtain new where new:
    "genericExtract win doc = map snd new"
    "\<forall>x \<in> set new. \<exists>link \<in> set (querySelectorAll doc (join '', '' generic_selectors)).
           generic_body win {} link = Some x"
    by blast
  from assms new(1) obtain h where "(h, it) \<in> set new" by auto
  with new(2) show ?thesis by blast
qed

lemma extractLinks_source:
  assumes "extractLinks win doc sels pat = Inr its" and "it \<in> set its"
  shows "\<exists>sel \<in> set sels. \<exists>link \<in> set (querySelectorAll doc sel).
           \<exists>h. links_body win pat {} link = Inr (Some (h, it))"
proof -
  from extractLinks_trace[OF assms(1)] obtain new where new:
    "its = map snd new"
    "\<forall>x \<in> set new. \<exists>sel \<in> set sels. \<exists>link \<in> set (querySelectorAll doc sel).
           links_body win pat {} link = Inr (Some x)"
    by blast
  from assms(2) new(1) obtain h where "(h, it) \<in> set new" by auto
  with new(2) show ?thesis by blast
qed

lemma distinct_urls:
  assumes d: "distinct (map fst new)"
    and u: "\<forall>x \<in> set new. \<exists>u. f (fst x) = Some u \<and> url (snd x) = href u"
    and inj: "inj_on (\<lambda>h. map_option href (f h)) (set (map fst new))"
  shows "distinct (map url (map snd new))"
proof -
  define g where "g = (\<lambda>h. map_option href (f h))"
  have 1: "distinct (map g (map fst new))"
    unfolding distinct_map[of g "map fst new"] using d inj by (simp add: g_def)
  have 2: "map (Some \<circ> url) (map snd new) = map g (map fst new)"
    using u unfolding g_def by (induction new) auto
  have "distinct (map (Some \<circ> url) (map snd new))"
    unfolding 2 by (rule 1)
  then show ?thesis
    unfolding distinct_map by (auto simp: inj_on_def)
qed

lemma hrefs_of_mem:
  assumes "sel \<in> set sels" and "link \<in> set (querySelectorAll doc sel)"
    and "getAttribute link ''href'' = Some h"
  shows "h \<in> set (hrefs_of doc sels)"
proof -
  have "h \<in> set (List.map_filter (\<lambda>link. getAttribute link ''href'') (querySelectorAll doc sel))"
    using assms(2,3) by (force simp: List.map_filter_def)
  with assms(1) show ?thesis by (auto simp: hrefs_of_def)
qed

lemma inj_on_set_remdups:
  "distinct (map f (remdups xs)) \<Longrightarrow> inj_on f (set xs)"
  by (simp add: distinct_map)

lemma emitted_hrefs:
  assumes d: "distinct (map fst new)"
    and src: "\<forall>x \<in> set new. fst x \<in> H \<and>
               (\<exists>u. new_URL win (fst x) (origin (location win)) = Some u \<and> url (snd x) = href u)"
  shows "(\<exists>hs. distinct hs \<and> set hs \<subseteq> H \<and>
            map (Some \<circ> url) (map snd new) = map (resolved win) hs) \<and>
         (inj_on (resolved win) H \<longrightarrow> distinct (map url (map snd new)))"
proof
  have "map (Some \<circ> url) (map snd new) = map (resolved win) (map fst new)"
    using src by (induction new) (auto simp: resolved_def)
  moreover have "set (map fst new) \<subseteq> H" using src by auto
  ultimately show "\<exists>hs. distinct hs \<and> set hs \<subseteq> H \<and>
            map (Some \<circ> url) (map snd new) = map (resolved win) hs"
    using d by blast
next
  show "inj_on (resolved win) H \<longrightarrow> distinct (map url (map snd new))"
  proof
    assume inj: "inj_on (resolved win) H"
    have sub: "set (map fst new) \<subseteq> H" using src by auto
    have "inj_on (\<lambda>h. map_option href (new_URL win h (origin (location win)))) (set (map fst new))"
      using inj_on_subset[OF inj sub] by (simp add: resolved_def[abs_def])
    moreover have "\<forall>x \<in> set new. \<exists>u. new_URL win (fst x) (origin (location win)) = Some u \<and>
        url (snd x) = href u"
      using src by blast
    ultimately show "distinct (map url (map snd new))"
      using d by (intro distinct_urls[where f = "\<lambda>h. new_URL win h (origin (location win))"])
  qed
qed

section \<open>First occurrences\<close>

lemma first_occurrences_subset: "set (first_occurrences key xs) \<subseteq> set xs"
  by (induction key xs rule: first_occurrences.induct) auto

lemma first_occurrences_distinct: "distinct (map key (first_occurrences key xs))"
proof (induction key xs rule: first_occurrences.induct)
  case (1 key)
  show ?case by simp
next
  case (2 key x xs)
  have "key x \<notin> key ` set (first_occurrences key (filter (\<lambda>y. key y \<noteq> key x) xs))"
    using first_occurrences_subset[of key "filter (\<lambda>y. key y \<noteq> key x) xs"] by auto
  with 2 show ?case by simp
qed

lemma first_occurrences_keys: "key ` set (first_occurrences key xs) = key ` set xs"
proof (induction key xs rule: first_occurrences.induct)
  case (1 key)
  show ?case by simp
next
  case (2 key x xs)
  have "key ` set (x # xs) = insert (key x) (key ` set (filter (\<lambda>y. key y \<noteq> key x) xs))"
    by auto
  with 2 show ?case by simp
qed

lemma first_occurrences_find:
  "x \<in> set (first_occurrences key xs) \<Longrightarrow> find (\<lambda>y. key y = key x) xs = Some x"
proof (induction key xs rule: first_occurrences.induct)
  case (1 key)
  then show ?case by simp
next
  case (2 key a xs)
  show ?case
  proof (cases "key a = key x")
    case True
    have "key a \<notin> key ` set (first_occurrences key (filter (\<lambda>y. key y \<noteq> key a) xs))"
      using first_occurrences_subset[of key "filter (\<lambda>y. key y \<noteq> key a) xs"] by auto
    with True "2.prems" have "x = a" by auto
    with True show ?thesis by simp
  next
    case False
    with "2.prems" have m: "x \<in> set (first_occurrences key (filter (\<lambda>y. key y \<noteq> key a) xs))"
      by auto
    from "2.IH"[OF m] have "find (\<lambda>y. key y = key x) (filter (\<lambda>y. key y \<noteq> key a) xs) = Some x" .
    moreover have "find (\<lambda>y. key y = key x) (filter (\<lambda>y. key y \<noteq> key a) xs) =
        find (\<lambda>y. key y = key x) xs"
      using False by (induction xs) auto
    ultimately show ?thesis using False by simp
  qed
qed

section \<open>The loops keep first occurrences\<close>

lemma links_body_cases:
  "links_body win pat seen link =
     (if accepts pat link \<and> getAttribute link ''href'' \<notin> Some ` seen
      then (case new_URL win (the (getAttribute link ''href'')) (origin (location win)) of
              None \<Rightarrow> Inl TypeError
            | Some u \<Rightarrow> Inr (Some (the (getAttribute link ''href''),
                \<lparr>title = trim (textContent link), url = href u,
                 number = extractNumber (the (getAttribute link ''href''))\<rparr>)))
      else Inr None)"
  by (auto simp: links_body_def accepts_def Let_def split: option.splits)

lemma links_loop_append:
  "links_loop win pat (l1 @ l2) st =
     (case links_loop win pat l1 st of Inl e \<Rightarrow> Inl e | Inr st' \<Rightarrow> links_loop win pat l2 st')"
proof (induction l1 arbitrary: st)
  case Nil
  show ?case by (cases st) simp
next
  case (Cons a l1)
  obtain seen acc where st: "st = (seen, acc)" by (cases st)
  show ?case unfolding st
    by (simp add: Cons.IH split: sum.splits option.splits prod.splits)
qed

lemma selectors_loop_concat:
  "selectors_loop win doc pat sels st =
     links_loop win pat (concat (map (querySelectorAll doc) sels)) st"
proof (induction sels arbitrary: st)
  case Nil
  show ?case by (cases st) simp
next
  case (Cons sel sels)
  show ?case by (simp add: links_loop_append Cons.IH split: sum.splits)
qed

lemma links_loop_first:
  "links_loop win pat links (seen, acc) = Inr (seen', acc') \<Longrightarrow>
     \<exists>new. acc' = acc @ new \<and>
       list_all2 (made_from win) new
         (first_occurrences (\<lambda>l. getAttribute l ''href'')
            (filter (\<lambda>l. accepts pat l \<and> getAttribute l ''href'' \<notin> Some ` seen) links))"
proof (induction links arbitrary: seen acc)
  case Nil
  then show ?case by simp
next
  case (Cons link links)
  let ?key = "\<lambda>l. getAttribute l ''href''"
  show ?case
  proof (cases "accepts pat link \<and> ?key link \<notin> Some ` seen")
    case False
    then have "links_body win pat seen link = Inr None"
      by (simp only: links_body_cases if_False)
    with Cons.prems have "links_loop win pat links (seen, acc) = Inr (seen', acc')" by simp
    note ih = Cons.IH[OF this]
    have "filter (\<lambda>l. accepts pat l \<and> ?key l \<notin> Some ` seen) (link # links) =
          filter (\<lambda>l. accepts pat l \<and> ?key l \<notin> Some ` seen) links"
      by (simp only: filter.simps False if_False)
    with ih show ?thesis by (simp only:)
  next
    case True
    then obtain h where h: "?key link = Some h" by (auto simp: accepts_def split: option.splits)
    from True h Cons.prems obtain u where u: "new_URL win h (origin (location win)) = Some u"
      by (cases "new_URL win h (origin (location win))") (simp_all add: links_body_cases)
    let ?it = "\<lparr>title = trim (textContent link), url = href u, number = extractNumber h\<rparr>"
    from True h u have b: "links_body win pat seen link = Inr (Some (h, ?it))"
      by (simp add: links_body_cases)
    with Cons.prems have "links_loop win pat links (insert h seen, acc @ [?it]) = Inr (seen', acc')"
      by simp
    from Cons.IH[OF this] obtain new where new: "acc' = (acc @ [?it]) @ new"
      "list_all2 (made_from win) new
         (first_occurrences ?key
            (filter (\<lambda>l. accepts pat l \<and> ?key l \<notin> Some ` insert h seen) links))"
      by blast
    have f: "filter (\<lambda>y. ?key y \<noteq> ?key link)
               (filter (\<lambda>l. accepts pat l \<and> ?key l \<notin> Some ` seen) links) =
             filter (\<lambda>l. accepts pat l \<and> ?key l \<notin> Some ` insert h seen) links"
      unfolding filter_filter h by (rule filter_cong) auto
    have m: "made_from win ?it link" by (simp add: made_from_def h u)
    have k: "filter (\<lambda>l. accepts pat l \<and> ?key l \<notin> Some ` seen) (link # links) =
        link # filter (\<lambda>l. accepts pat l \<and> ?key l \<notin> Some ` seen) links"
      using True by simp
    have "first_occurrences ?key
            (filter (\<lambda>l. accepts pat l \<and> ?key l \<notin> Some ` seen) (link # links)) =
          link # first_occurrences ?key
            (filter (\<lambda>l. accepts pat l \<and> ?key l \<notin> Some ` insert h seen) links)"
      unfolding k by (simp only: first_occurrences.simps f)
    with new m show ?thesis by (intro exI[of _ "?it # new"]) simp
  qed
qed

lemma extractLinks_first:
  assumes "extractLinks win doc sels pat = Inr its"
  shows "list_all2 (made_from win) its
           (first_occurrences (\<lambda>l. getAttribute l ''href'')
              (filter (accepts pat) (concat (map (querySelectorAll doc) sels))))"
proof -
  from assms obtain seen' where
    "links_loop win pat (concat (map (querySelectorAll doc) sels)) ({}, []) = Inr (seen', its)"
    by (auto simp: extractLinks_def selectors_loop_concat split: sum.splits prod.splits)
  from links_loop_first[OF this] show ?thesis by simp
qed

lemma generic_loop_first:
  "generic_loop win links (seen, acc) = (seen', acc') \<Longrightarrow>
     \<exists>new. acc' = acc @ new \<and>
       list_all2 (made_from win) new
         (first_occurrences (\<lambda>l. getAttribute l ''href'')
            (filter (\<lambda>l. generic_accepts win l \<and> getAttribute l ''href'' \<notin> Some ` seen) links))"
proof (induction links arbitrary: seen acc)
  case Nil
  then show ?case by simp
next
  case (Cons link links)
  let ?key = "\<lambda>l. getAttribute l ''href''"
  show ?case
  proof (cases "generic_accepts win link \<and> ?key link \<notin> Some ` seen")
    case False
    have "generic_body win seen link = None"
    proof (cases "?key link")
      case None
      then show ?thesis by (subst generic_body_eq) simp
    next
      case (Some h)
      show ?thesis
      proof (cases "h \<in> seen")
        case True
        with Some show ?thesis by (subst generic_body_eq) simp
      next
        case n: False
        with Some False have "generic_body win {} link = None"
          by (cases "generic_body win {} link") (auto simp: generic_accepts_def)
        with Some n show ?thesis by (subst generic_body_eq) simp
      qed
    qed
    with Cons.prems have "generic_loop win links (seen, acc) = (seen', acc')" by simp
    note ih = Cons.IH[OF this]
    have "filter (\<lambda>l. generic_accepts win l \<and> ?key l \<notin> Some ` seen) (link # links) =
          filter (\<lambda>l. generic_accepts win l \<and> ?key l \<notin> Some ` seen) links"
      by (simp only: filter.simps False if_False)
    with ih show ?thesis by (simp only:)
  next
    case True
    then obtain h it where g: "generic_body win {} link = Some (h, it)"
      by (auto simp: generic_accepts_def)
    note d = generic_body_SomeD[OF g]
    from d have h: "?key link = Some h" by simp
    from d have m: "made_from win it link" by (auto simp: made_from_def)
    from True h g have b: "generic_body win seen link = Some (h, it)"
      by (subst generic_body_eq) auto
    with Cons.prems have "generic_loop win links (insert h seen, acc @ [it]) = (seen', acc')"
      by simp
    from Cons.IH[OF this] obtain new where new: "acc' = (acc @ [it]) @ new"
      "list_all2 (made_from win) new
         (first_occurrences ?key
            (filter (\<lambda>l. generic_accepts win l \<and> ?key l \<notin> Some ` insert h seen) links))"
      by blast
    have f: "filter (\<lambda>y. ?key y \<noteq> ?key link)
               (filter (\<lambda>l. generic_accepts win l \<and> ?key l \<notin> Some ` seen) links) =
             filter (\<lambda>l. generic_accepts win l \<and> ?key l \<notin> Some ` insert h seen) links"
      unfolding filter_filter h by (rule filter_cong) auto
    have k: "filter (\<lambda>l. generic_accepts win l \<and> ?key l \<notin> Some ` seen) (link # links) =
        link # filter (\<lambda>l. generic_accepts win l \<and> ?key l \<notin> Some ` seen) links"
      using True by simp
    have "first_occurrences ?key
            (filter (\<lambda>l. generic_accepts win l \<and> ?key l \<notin> Some ` seen) (link # links)) =
          link # first_occurrences ?key
            (filter (\<lambda>l. generic_accepts win l \<and> ?key l \<notin> Some ` insert h seen) links)"
      unfolding k by (simp only: first_occurrences.simps f)
    with new m show ?thesis by (intro exI[of _ "it # new"]) simp
  qed
qed

lemma genericExtract_first:
  "list_all2 (made_from win) (genericExtract win doc)
     (first_occurrences (\<lambda>l. getAttribute l ''href'')
        (filter (generic_accepts win) (querySelectorAll doc (join '', '' generic_selectors))))"
proof -
  obtain seen' acc' where
    g: "generic_loop win (querySelectorAll doc (join '', '' generic_selectors)) ({}, []) = (seen', acc')"
    by (cases "generic_loop win (querySelectorAll doc (join '', '' generic_selectors)) ({}, [])")
  from generic_loop_first[OF g] g show ?thesis
    by (simp add: genericExtract_def Let_def)
qed

section \<open>C1: uniqueness of the items\<close>

lemma items_of_distinct_hrefs:
  "(\<forall>its. extractLinks win doc sels pat = Inr its \<longrightarrow>
      (\<exists>hs. distinct hs \<and> set hs \<subseteq> set (hrefs_of doc sels) \<and>
            map (Some \<circ> url) its = map (resolved win) hs) \<and>
      (inj_on (resolved win) (set (hrefs_of doc sels)) \<longrightarrow> distinct (map url its))) \<and>
   (\<exists>hs. distinct hs \<and> set hs \<subseteq> set (hrefs_of doc [join '', '' generic_selectors]) \<and>
         map (Some \<circ> url) (genericExtract win doc) = map (resolved win) hs) \<and>
   (inj_on (resolved win) (set (hrefs_of doc [join '', '' generic_selectors])) \<longrightarrow>
      distinct (map url (genericExtract win doc)))"
proof (intro conjI allI impI)
  fix its
  assume e: "extractLinks win doc sels pat = Inr its"
  from extractLinks_trace[OF e] obtain new where new:
    "its = map snd new" "distinct (map fst new)"
    "\<forall>x \<in> set new. \<exists>sel \<in> set sels. \<exists>link \<in> set (querySelectorAll doc sel).
           links_body win pat {} link = Inr (Some x)"
    by blast
  have src: "\<forall>x \<in> set new. fst x \<in> set (hrefs_of doc sels) \<and>
      (\<exists>u. new_URL win (fst x) (origin (location win)) = Some u \<and> url (snd x) = href u)"
  proof
    fix x assume "x \<in> set new"
    with new(3) obtain sel link where sl: "sel \<in> set sels" "link \<in> set (querySelectorAll doc sel)"
      and b: "links_body win pat {} link = Inr (Some (fst x, snd x))"
      by force
    from links_body_SomeD[OF b] hrefs_of_mem[OF sl]
    show "fst x \<in> set (hrefs_of doc sels) \<and>
      (\<exists>u. new_URL win (fst x) (origin (location win)) = Some u \<and> url (snd x) = href u)"
      by auto
  qed
  note r = emitted_hrefs[OF new(2) src]
  from r show "\<exists>hs. distinct hs \<and> set hs \<subseteq> set (hrefs_of doc sels) \<and>
            map (Some \<circ> url) its = map (resolved win) hs"
    unfolding new(1) by blast
  assume "inj_on (resolved win) (set (hrefs_of doc sels))"
  with r show "distinct (map url its)" unfolding new(1) by blast
next
  from genericExtract_trace[of win doc] obtain new where new:
    "genericExtract win doc = map snd new" "distinct (map fst new)"
    "\<forall>x \<in> set new. \<exists>link \<in> set (querySelectorAll doc (join '', '' generic_selectors)).
           generic_body win {} link = Some x"
    by blast
  have src: "\<forall>x \<in> set new. fst x \<in> set (hrefs_of doc [join '', '' generic_selectors]) \<and>
      (\<exists>u. new_URL win (fst x) (origin (location win)) = Some u \<and> url (snd x) = href u)"
  proof
    fix x assume "x \<in> set new"
    with new(3) obtain link where sl: "link \<in> set (querySelectorAll doc (join '', '' generic_selectors))"
      and b: "generic_body win {} link = Some (fst x, snd x)"
      by force
    have m: "join '', '' generic_selectors \<in> set [join '', '' generic_selectors]" by simp
    from generic_body_SomeD[OF b] hrefs_of_mem[OF m sl]
    show "fst x \<in> set (hrefs_of doc [join '', '' generic_selectors]) \<and>
      (\<exists>u. new_URL win (fst x) (origin (location win)) = Some u \<and> url (snd x) = href u)"
      by auto
  qed
  note r = emitted_hrefs[OF new(2) src]
  from r show "\<exists>hs. distinct hs \<and> set hs \<subseteq> set (hrefs_of doc [join '', '' generic_selectors]) \<and>
         map (Some \<circ> url) (genericExtract win doc) = map (resolved win) hs"
    unfolding new(1) by blast
  {
    assume "inj_on (resolved win) (set (hrefs_of doc [join '', '' generic_selectors]))"
    with r show "distinct (map url (genericExtract win doc))" unfolding new(1) by blast
  }
qed

text \<open>
  C1, as amended. The collectors remember the \<open>href\<close> attribute as it is written, not the
  URL it resolves to: two links with the same \<open>href\<close> are the same item, and only the
  first occurrence is emitted. The items that \<open>extractLinks\<close> returns are made, one for
  one and in this order, from the first occurrences by \<open>href\<close> among the links it takes,
  in the order of the selectors and then of the document; likewise the items of
  \<open>genericExtract\<close>, in the order of the document. So the items stand for pairwise
  distinct \<open>href\<close> values, and no two items share a \<open>url\<close> whenever distinct \<open>href\<close>
  values of the matched elements resolve to distinct URLs.
\<close>

theorem C1_dedup_by_href:
  "(\<forall>its. extractLinks win doc sels pat = Inr its \<longrightarrow>
      list_all2 (made_from win) its
        (first_occurrences (\<lambda>l. getAttribute l ''href'')
           (filter (accepts pat) (concat (map (querySelectorAll doc) sels)))) \<and>
      (\<exists>hs. distinct hs \<and> set hs \<subseteq> set (hrefs_of doc sels) \<and>
            map (Some \<circ> url) its = map (resolved win) hs) \<and>
      (inj_on (resolved win) (set (hrefs_of doc sels)) \<longrightarrow> distinct (map url its))) \<and>
   list_all2 (made_from win) (genericExtract win doc)
     (first_occurrences (\<lambda>l. getAttribute l ''href'')
        (filter (generic_accepts win) (querySelectorAll doc (join '', '' generic_selectors)))) \<and>
   (\<exists>hs. distinct hs \<and> set hs \<subseteq> set (hrefs_of doc [join '', '' generic_selectors]) \<and>
         map (Some \<circ> url) (genericExtract win doc) = map (resolved win) hs) \<and>
   (inj_on (resolved win) (set (hrefs_of doc [join '', '' generic_selectors])) \<longrightarrow>
      distinct (map url (genericExtract win doc)))"
  using items_of_distinct_hrefs[of win doc sels pat] extractLinks_first[of win doc sels pat]
    genericExtract_first[of win doc]
  by blast

text \<open>
  On the pull-request list whose first and third row have the same \<open>href\<close> and different
  texts, the item of that \<open>href\<close> has the text of the first row and stands first; the two
  \<open>href\<close> values resolve to two URLs, and both collectors return items with two URLs.
\<close>

theorem C1_dedup_by_href_witness:
  "extractLinks retitled (document retitled) [''.js-issue-row .Link--primary''] None =
     Inr [\<lparr>title = ''First title'', url = ''https://github.com/acme/widgets/pull/1'',
            number = Some ''#1''\<rparr>,
          \<lparr>title = ''Add feature'', url = ''https://github.com/acme/widgets/pull/2'',
            number = Some ''#2''\<rparr>] \<and>
   list_all2 (made_from retitled)
     [\<lparr>title = ''First title'', url = ''https://github.com/acme/widgets/pull/1'',
        number = Some ''#1''\<rparr>,
      \<lparr>title = ''Add feature'', url = ''https://github.com/acme/widgets/pull/2'',
        number = Some ''#2''\<rparr>]
     (first_occurrences (\<lambda>l. getAttribute l ''href'')
        (filter (accepts None)
           (concat (map (querySelectorAll (document retitled))
                      [''.js-issue-row .Link--primary''])))) \<and>
   map (\<lambda>l. (getAttribute l ''href'', textContent l))
     (first_occurrences (\<lambda>l. getAttribute l ''href'')
        (filter (accepts None)
           (concat (map (querySelectorAll (document retitled))
                      [''.js-issue-row .Link--primary''])))) =
     [(Some ''/acme/widgets/pull/1'', ''First title''),
      (Some ''/acme/widgets/pull/2'', ''Add feature'')] \<and>
   distinct (map url
         [\<lparr>title = ''First title'', url = ''https://github.com/acme/widgets/pull/1'',
            number = Some ''#1''\<rparr>,
          \<lparr>title = ''Add feature'', url = ''https://github.com/acme/widgets/pull/2'',
            number = Some ''#2''\<rparr>]) \<and>
   map title (genericExtract retitled (document retitled)) = [''First title'', ''Add feature''] \<and>
   distinct (map url (genericExtract retitled (document retitled)))"
proof -
  let ?its = "[\<lparr>title = ''First title'', url = ''https://github.com/acme/widgets/pull/1'',
            number = Some ''#1''\<rparr>,
          \<lparr>title = ''Add feature'', url = ''https://github.com/acme/widgets/pull/2'',
            number = Some ''#2''\<rparr>]"
  have e: "extractLinks retitled (document retitled) [''.js-issue-row .Link--primary''] None =
     Inr ?its"
    by code_simp
  have k: "map (\<lambda>l. (getAttribute l ''href'', textContent l))
     (first_occurrences (\<lambda>l. getAttribute l ''href'')
        (filter (accepts None)
           (concat (map (querySelectorAll (document retitled))
                      [''.js-issue-row .Link--primary''])))) =
     [(Some ''/acme/widgets/pull/1'', ''First title''),
      (Some ''/acme/widgets/pull/2'', ''Add feature'')]"
    by code_simp
  have g: "map title (genericExtract retitled (document retitled)) =
      [''First title'', ''Add feature'']"
    by code_simp
  have h1: "hrefs_of (document retitled) [''.js-issue-row .Link--primary''] =
     [''/acme/widgets/pull/1'', ''/acme/widgets/pull/2'', ''/acme/widgets/pull/1'']"
    by code_simp
  have h2: "hrefs_of (document retitled) [join '', '' generic_selectors] =
     [''/acme/widgets/pull/1'', ''/acme/widgets/pull/2'', ''/acme/widgets/pull/1'']"
    by code_simp
  have "distinct (map (resolved retitled)
      (remdups [''/acme/widgets/pull/1'', ''/acme/widgets/pull/2'', ''/acme/widgets/pull/1'']))"
    by code_simp
  note i = inj_on_set_remdups[OF this]
  have i1: "inj_on (resolved retitled)
      (set (hrefs_of (document retitled) [''.js-issue-row .Link--primary'']))"
    unfolding h1 by (rule i)
  have i2: "inj_on (resolved retitled)
      (set (hrefs_of (document retitled) [join '', '' generic_selectors]))"
    unfolding h2 by (rule i)
  note c = C1_dedup_by_href[of retitled "document retitled"
      "[''.js-issue-row .Link--primary'']" None]
  note c1 = c[THEN conjunct1, rule_format, OF e]
  from c1 have 1: "list_all2 (made_from retitled) ?its
     (first_occurrences (\<lambda>l. getAttribute l ''href'')
        (filter (accepts None)
           (concat (map (querySelectorAll (document retitled))
                      [''.js-issue-row .Link--primary'']))))"
    by (rule conjunct1)
  from c1 i1 have 2: "distinct (map url ?its)" by blast
  from c[THEN conjunct2] i2
  have 3: "distinct (map url (genericExtract retitled (document retitled)))" by blast
  from e 1 k 2 g 3 show ?thesis by (intro conjI)
qed

text \<open>
  C1 as stated fails: of two rows that spell the same pull request as a path and as a full
  address, both are emitted, by the pull-request extractor and by the generic one, with
  the same \<open>url\<close>.
\<close>

theorem C1_same_url_twice:
  "issueOrPr two_spellings (document two_spellings) =
     Inr [\<lparr>title = ''Fix bug'', url = ''https://github.com/acme/widgets/pull/1'',
            number = Some ''#1''\<rparr>,
          \<lparr>title = ''Fix bug'', url = ''https://github.com/acme/widgets/pull/1'',
            number = Some ''#1''\<rparr>] \<and>
   genericExtract two_spellings (document two_spellings) =
     [\<lparr>title = ''Fix bug'', url = ''https://github.com/acme/widgets/pull/1'',
        number = Some ''#1''\<rparr>,
      \<lparr>title = ''Fix bug'', url = ''https://github.com/acme/widgets/pull/1'',
        number = Some ''#1''\<rparr>]"
  by code_simp

section \<open>C2: a link that does not resolve\<close>

text \<open>
  C2. The generic extractor catches the constructor's \<open>TypeError\<close> and goes on with the
  next element; \<open>extractLinks\<close> does not, and neither does \<open>extractItems\<close>. On the tag list
  whose first link has no host, the extractor of the tags and the whole pass end with the
  \<open>TypeError\<close>, where the generic extractor returns the item of the second row, which
  is also what the extractor of the tags returns once the first row is gone.
\<close>

theorem C2_extractLinks_aborts:
  "tags broken_link (document broken_link) = Inl TypeError \<and>
   extractItems broken_link = Inl TypeError \<and>
   genericExtract broken_link (document broken_link) =
     [\<lparr>title = ''v1.1'', url = ''https://github.com/acme/widgets/releases/tag/v1.1'',
        number = None\<rparr>] \<and>
   tags sound_link (document sound_link) =
     Inr [\<lparr>title = ''v1.1'', url = ''https://github.com/acme/widgets/releases/tag/v1.1'',
            number = None\<rparr>]"
  by code_simp

section \<open>C7: what the generic extractor leaves out\<close>







section \<open>C8: links to other origins\<close>

text \<open>
  C8, as amended. Every item that \<open>genericExtract\<close> returns was made from a candidate
  element whose \<open>href\<close> resolves to a URL of the origin of the current page, and the item's
  \<open>url\<close> is that URL. (The page-specific extractors compare no origins.)
\<close>

theorem C8_generic_same_origin:
  assumes "it \<in> set (genericExtract win doc)"
  shows "\<exists>link \<in> set (querySelectorAll doc (join '', '' generic_selectors)). \<exists>h u.
           getAttribute link ''href'' = Some h \<and>
           new_URL win h (origin (location win)) = Some u \<and>
           origin u = origin (location win) \<and> url it = href u"
proof -
  from genericExtract_source[OF assms] obtain link h where
    l: "link \<in> set (querySelectorAll doc (join '', '' generic_selectors))"
    and b: "generic_body win {} link = Some (h, it)"
    by blast
  from generic_body_SomeD[OF b] have
    "\<exists>u. getAttribute link ''href'' = Some h \<and>
           new_URL win h (origin (location win)) = Some u \<and>
           origin u = origin (location win) \<and> url it = href u"
    by auto
  with l show ?thesis by blast
qed

theorem C8_generic_same_origin_witness:
  "\<lparr>title = ''v1.1'', url = ''https://github.com/acme/widgets/releases/tag/v1.1'',
      number = None\<rparr> \<in> set (genericExtract release_on_pulls (document release_on_pulls)) \<and>
   (\<exists>link \<in> set (querySelectorAll (document release_on_pulls) (join '', '' generic_selectors)).
      \<exists>h u. getAttribute link ''href'' = Some h \<and>
           new_URL release_on_pulls h (origin (location release_on_pulls)) = Some u \<and>
           origin u = origin (location release_on_pulls) \<and>
           ''https://github.com/acme/widgets/releases/tag/v1.1'' = href u)"
proof -
  have m: "\<lparr>title = ''v1.1'', url = ''https://github.com/acme/widgets/releases/tag/v1.1'',
      number = None\<rparr> \<in> set (genericExtract release_on_pulls (document release_on_pulls))"
    by code_simp
  from C8_generic_same_origin[OF m] m show ?thesis by simp
qed

text \<open>
  C8 as stated fails. On the tag list whose row links to another site, the extractor of
  the tags (no filter) and the extractor of the branches (filter \<^verbatim>\<open>/\/tree\//\<close>) both
  return the item with the foreign URL, and so does the whole pass; the generic extractor
  returns nothing.
\<close>

theorem C8_specific_cross_origin:
  "tags foreign_link (document foreign_link) =
     Inr [\<lparr>title = ''v1.0'', url = ''https://mirror.example/acme/widgets/tree/v1.0'',
            number = None\<rparr>] \<and>
   branches foreign_link (document foreign_link) =
     Inr [\<lparr>title = ''v1.0'', url = ''https://mirror.example/acme/widgets/tree/v1.0'',
            number = None\<rparr>] \<and>
   map_sum id items (extractItems foreign_link) =
     Inr [\<lparr>title = ''v1.0'', url = ''https://mirror.example/acme/widgets/tree/v1.0'',
            number = None\<rparr>] \<and>
   genericExtract foreign_link (document foreign_link) = [] \<and>
   origin (location foreign_link) = ''https://github.com'' \<and>
   map_option origin
     (new_URL foreign_link ''https://mirror.example/acme/widgets/tree/v1.0''
        (origin (location foreign_link))) = Some ''https://mirror.example''"
  by code_simp

section \<open>C3: the shape of the result\<close>

text \<open>
  C3. Whenever \<open>extractItems\<close> returns a result, its items are empty exactly when
  \<open>success\<close> is false, and it has an \<open>error\<close> exactly when \<open>success\<close> is false. When the
  extractor of the page, the round over all extractors and the generic extractor all
  return no item, the result is the failure record with the context of the repository.
\<close>

theorem C3_result_shape:
  "(\<forall>r. extractItems win = Inr r \<longrightarrow>
      (items r = [] \<longleftrightarrow> \<not> success r) \<and> (error r \<noteq> None \<longleftrightarrow> \<not> success r) \<and>
      (items r = [] \<longrightarrow>
         r = \<lparr>success = False, pageType = None, pageLabel = None,
              repoContext = getContextInfo win, items = [],
              error = Some ''No extractable items found on this page.'',
              pageUrl = None\<rparr>)) \<and>
   (specific win (detectPage win) = Inr [] \<and>
    try_all (map fst EXTRACTORS) win [] = Inr [] \<and>
    genericExtract win (document win) = [] \<longrightarrow>
      extractItems win =
        Inr \<lparr>success = False, pageType = None, pageLabel = None,
             repoContext = getContextInfo win, items = [],
             error = Some ''No extractable items found on this page.'',
             pageUrl = None\<rparr>)"
  by (auto simp: extractItems_def Let_def split: sum.splits if_splits)

theorem C3_result_shape_witness:
  "extractItems empty_page =
     Inr \<lparr>success = False, pageType = None, pageLabel = None,
          repoContext = \<lparr>owner = ''acme'', repo = ''widgets''\<rparr>, items = [],
          error = Some ''No extractable items found on this page.'',
          pageUrl = None\<rparr> \<and>
   (\<exists>r. extractItems scenario_A = Inr r \<and> success r \<and> items r \<noteq> [] \<and> error r = None)"
proof -
  have s: "specific empty_page (detectPage empty_page) = Inr []" by code_simp
  have t: "try_all (map fst EXTRACTORS) empty_page [] = Inr []" by code_simp
  have g: "genericExtract empty_page (document empty_page) = []" by code_simp
  have c: "getContextInfo empty_page = \<lparr>owner = ''acme'', repo = ''widgets''\<rparr>" by code_simp
  from C3_result_shape[of empty_page] s t g
  have 1: "extractItems empty_page =
     Inr \<lparr>success = False, pageType = None, pageLabel = None,
          repoContext = getContextInfo empty_page, items = [],
          error = Some ''No extractable items found on this page.'',
          pageUrl = None\<rparr>"
    by blast
  have "map_sum id success (extractItems scenario_A) = Inr True" by code_simp
  then obtain r where r: "extractItems scenario_A = Inr r" "success r"
    by (cases "extractItems scenario_A") auto
  with C3_result_shape[of scenario_A] have "items r \<noteq> [] \<and> error r = None" by blast
  with r 1 c show ?thesis by auto
qed

section \<open>C4 and C5: the classifier\<close>

lemma detect_loop_first:
  "(\<exists>i<length rules. test (pattern (rules ! i)) full \<and>
        (\<forall>j<i. \<not> test (pattern (rules ! j)) full) \<and>
        detect_loop rules full =
          \<lparr>page_type = kind (rules ! i), page_label = label (rules ! i)\<rparr>) \<or>
   ((\<forall>r \<in> set rules. \<not> test (pattern r) full) \<and>
    detect_loop rules full = \<lparr>page_type = None, page_label = ''Items''\<rparr>)"
proof (induction rules)
  case Nil
  show ?case by simp
next
  case (Cons rule rules)
  show ?case
  proof (cases "test (pattern rule) full")
    case True
    then have "0 < length (rule # rules) \<and> test (pattern ((rule # rules) ! 0)) full \<and>
        (\<forall>j<0. \<not> test (pattern ((rule # rules) ! j)) full) \<and>
        detect_loop (rule # rules) full =
          \<lparr>page_type = kind ((rule # rules) ! 0), page_label = label ((rule # rules) ! 0)\<rparr>"
      by simp
    then show ?thesis by blast
  next
    case False
    from Cons.IH show ?thesis
    proof
      assume "\<exists>i<length rules. test (pattern (rules ! i)) full \<and>
        (\<forall>j<i. \<not> test (pattern (rules ! j)) full) \<and>
        detect_loop rules full =
          \<lparr>page_type = kind (rules ! i), page_label = label (rules ! i)\<rparr>"
      then obtain i where i: "i < length rules" "test (pattern (rules ! i)) full"
        "\<forall>j<i. \<not> test (pattern (rules ! j)) full"
        "detect_loop rules full =
          \<lparr>page_type = kind (rules ! i), page_label = label (rules ! i)\<rparr>"
        by blast
      have "\<forall>j<Suc i. \<not> test (pattern ((rule # rules) ! j)) full"
        using False i(3) by (auto simp: less_Suc_eq_0_disj)
      with i False have "Suc i < length (rule # rules) \<and>
        test (pattern ((rule # rules) ! Suc i)) full \<and>
        (\<forall>j<Suc i. \<not> test (pattern ((rule # rules) ! j)) full) \<and>
        detect_loop (rule # rules) full =
          \<lparr>page_type = kind ((rule # rules) ! Suc i), page_label = label ((rule # rules) ! Suc i)\<rparr>"
        by simp
      then show ?thesis by blast
    next
      assume "(\<forall>r \<in> set rules. \<not> test (pattern r) full) \<and>
        detect_loop rules full = \<lparr>page_type = None, page_label = ''Items''\<rparr>"
      with False show ?thesis by simp
    qed
  qed
qed

text \<open>
  C4. \<open>detectPage\<close> returns the kind and the label of the first rule of \<open>PAGE_RULES\<close>
  whose pattern matches the path followed by the query, and no kind with the label
  \<^verbatim>\<open>Items\<close> when no rule matches.
\<close>

theorem C4_detectPage_first_match:
  "(\<exists>i<length PAGE_RULES.
        test (pattern (PAGE_RULES ! i)) (pathname (location win) @ search (location win)) \<and>
        (\<forall>j<i. \<not> test (pattern (PAGE_RULES ! j))
                    (pathname (location win) @ search (location win))) \<and>
        detectPage win =
          \<lparr>page_type = kind (PAGE_RULES ! i), page_label = label (PAGE_RULES ! i)\<rparr>) \<or>
   ((\<forall>r \<in> set PAGE_RULES.
        \<not> test (pattern r) (pathname (location win) @ search (location win))) \<and>
    detectPage win = \<lparr>page_type = None, page_label = ''Items''\<rparr>)"
  using detect_loop_first[of PAGE_RULES "pathname (location win) @ search (location win)"]
  by (simp add: detectPage_def Let_def)

text \<open>
  On the page of the pull requests the first rule that matches is the third, and on a
  page that no rule matches the classifier answers \<^verbatim>\<open>Items\<close>.
\<close>

theorem C4_detectPage_first_match_witness:
  "(\<exists>i<length PAGE_RULES.
        test (pattern (PAGE_RULES ! i)) ''/acme/widgets/pulls'' \<and>
        (\<forall>j<i. \<not> test (pattern (PAGE_RULES ! j)) ''/acme/widgets/pulls'') \<and>
        kind (PAGE_RULES ! i) = Some ''issueOrPr'' \<and>
        label (PAGE_RULES ! i) = ''Pull Requests'') \<and>
   detectPage scenario_A = \<lparr>page_type = Some ''issueOrPr'', page_label = ''Pull Requests''\<rparr> \<and>
   detectPage labels_page = \<lparr>page_type = None, page_label = ''Items''\<rparr>"
proof -
  have f: "pathname (location scenario_A) @ search (location scenario_A) = ''/acme/widgets/pulls''"
    by code_simp
  have d: "detectPage scenario_A =
      \<lparr>page_type = Some ''issueOrPr'', page_label = ''Pull Requests''\<rparr>"
    by code_simp
  have l: "detectPage labels_page = \<lparr>page_type = None, page_label = ''Items''\<rparr>"
    by code_simp
  from C4_detectPage_first_match[of scenario_A] d
  have "\<exists>i<length PAGE_RULES.
        test (pattern (PAGE_RULES ! i)) ''/acme/widgets/pulls'' \<and>
        (\<forall>j<i. \<not> test (pattern (PAGE_RULES ! j)) ''/acme/widgets/pulls'') \<and>
        kind (PAGE_RULES ! i) = Some ''issueOrPr'' \<and>
        label (PAGE_RULES ! i) = ''Pull Requests''"
    unfolding f by auto
  with d l show ?thesis by blast
qed

text \<open>
  C5, as amended. The path \<^verbatim>\<open>/acme/widgets/milestones\<close> with an empty query is
  classified as the list of milestones, and the path \<^verbatim>\<open>/acme/widgets/milestone/7\<close>
  with an empty query as a milestone. In the table the rule of the list stands before
  the rule of a milestone: it does not match the second path, and wherever it matches,
  the page is classified as the list of milestones, whether or not the rule of a
  milestone matches too.
\<close>

theorem C5_milestone_pages:
  "detectPage \<lparr>location = \<lparr>href = h, origin = og, pathname = ''/acme/widgets/milestones'',
                            search = []\<rparr>,
               document = doc, new_URL = ctor\<rparr> =
     \<lparr>page_type = Some ''milestonesList'', page_label = ''Milestones''\<rparr> \<and>
   detectPage \<lparr>location = \<lparr>href = h, origin = og, pathname = ''/acme/widgets/milestone/7'',
                            search = []\<rparr>,
               document = doc, new_URL = ctor\<rparr> =
     \<lparr>page_type = Some ''milestone'', page_label = ''Milestone''\<rparr> \<and>
   kind (PAGE_RULES ! 0) = Some ''milestonesList'' \<and>
   kind (PAGE_RULES ! 1) = Some ''milestone'' \<and>
   test (pattern (PAGE_RULES ! 0)) ''/acme/widgets/milestone/7'' = False \<and>
   (test (pattern (PAGE_RULES ! 0)) (pathname (location win) @ search (location win)) \<longrightarrow>
      detectPage win = \<lparr>page_type = Some ''milestonesList'', page_label = ''Milestones''\<rparr>)"
proof -
  have 1: "detectPage \<lparr>location = \<lparr>href = h, origin = og, pathname = ''/acme/widgets/milestones'',
                            search = []\<rparr>,
               document = doc, new_URL = ctor\<rparr> =
     \<lparr>page_type = Some ''milestonesList'', page_label = ''Milestones''\<rparr>"
    by code_simp
  have 2: "detectPage \<lparr>location = \<lparr>href = h, origin = og, pathname = ''/acme/widgets/milestone/7'',
                            search = []\<rparr>,
               document = doc, new_URL = ctor\<rparr> =
     \<lparr>page_type = Some ''milestone'', page_label = ''Milestone''\<rparr>"
    by code_simp
  have 3: "kind (PAGE_RULES ! 0) = Some ''milestonesList''" by code_simp
  have 4: "kind (PAGE_RULES ! 1) = Some ''milestone''" by code_simp
  have 5: "test (pattern (PAGE_RULES ! 0)) ''/acme/widgets/milestone/7'' = False" by code_simp
  have 6: "test (pattern (PAGE_RULES ! 0)) (pathname (location win) @ search (location win)) \<longrightarrow>
      detectPage win = \<lparr>page_type = Some ''milestonesList'', page_label = ''Milestones''\<rparr>"
  proof
    assume t: "test (pattern (PAGE_RULES ! 0)) (pathname (location win) @ search (location win))"
    obtain rule rules where r: "PAGE_RULES = rule # rules"
      by (cases PAGE_RULES) (simp_all add: PAGE_RULES_def)
    have z: "PAGE_RULES ! 0 = rule" by (simp add: r)
    have "label (PAGE_RULES ! 0) = ''Milestones''" by code_simp
    with 3 have k: "kind rule = Some ''milestonesList''" "label rule = ''Milestones''"
      unfolding z by simp_all
    from t have "test (pattern rule) (pathname (location win) @ search (location win))"
      unfolding z .
    then show "detectPage win =
        \<lparr>page_type = Some ''milestonesList'', page_label = ''Milestones''\<rparr>"
      unfolding detectPage_def Let_def r by (simp add: k)
  qed
  from 1 2 3 4 5 6 show ?thesis by (intro conjI)
qed

text \<open>
  The list of milestones with a slash at its end: the rule of the list matches, and the
  page is classified as the list.
\<close>

theorem C5_milestone_pages_witness:
  "test (pattern (PAGE_RULES ! 0))
     (pathname (location milestones_slash) @ search (location milestones_slash)) \<and>
   detectPage milestones_slash =
     \<lparr>page_type = Some ''milestonesList'', page_label = ''Milestones''\<rparr>"
proof -
  have t: "test (pattern (PAGE_RULES ! 0))
     (pathname (location milestones_slash) @ search (location milestones_slash))"
    by code_simp
  note c = C5_milestone_pages[of "[]" "[]" "document milestones_slash" "new_URL milestones_slash"
      milestones_slash]
  from c t have "detectPage milestones_slash =
     \<lparr>page_type = Some ''milestonesList'', page_label = ''Milestones''\<rparr>"
    by blast
  with t show ?thesis by (intro conjI)
qed

text \<open>
  C5 as stated fails: the rule of a milestone does not take precedence. On the page of
  milestone 7, reached with a query that names the list of milestones, both rules match,
  and the page is classified as the list of milestones.
\<close>

theorem C5_list_rule_first:
  "pathname (location milestone_with_query) = ''/acme/widgets/milestone/7'' \<and>
   search (location milestone_with_query) = ''?return_to=/acme/widgets/milestones'' \<and>
   kind (PAGE_RULES ! 1) = Some ''milestone'' \<and>
   test (pattern (PAGE_RULES ! 1))
     ''/acme/widgets/milestone/7?return_to=/acme/widgets/milestones'' = True \<and>
   test (pattern (PAGE_RULES ! 0))
     ''/acme/widgets/milestone/7?return_to=/acme/widgets/milestones'' = True \<and>
   detectPage milestone_with_query =
     \<lparr>page_type = Some ''milestonesList'', page_label = ''Milestones''\<rparr>"
  by code_simp

section \<open>C10: the page kind of a result\<close>

lemma detect_loop_kind:
  "\<forall>r \<in> set rules. kind r \<noteq> Some [] \<Longrightarrow> page_type (detect_loop rules full) \<noteq> Some []"
  by (induction rules) auto

lemma detectPage_kind: "page_type (detectPage win) \<noteq> Some []"
  unfolding detectPage_def Let_def
  by (rule detect_loop_kind) (simp add: PAGE_RULES_def)

text \<open>
  C10. When \<open>extractItems\<close> succeeds although the extractor of the classified kind
  returned no item (or the page has no kind), the label of the result is the label of
  the classification, and its page type is the classified kind, or \<^verbatim>\<open>generic\<close> when
  the page has no kind.
\<close>

theorem C10_label_from_classification:
  assumes "extractItems win = Inr r" and "success r"
    and "specific win (detectPage win) = Inr []"
  shows "pageLabel r = Some (page_label (detectPage win)) \<and>
         pageType r = Some (case page_type (detectPage win) of
                              None \<Rightarrow> ''generic'' | Some k \<Rightarrow> k)"
  using assms detectPage_kind[of win]
  by (auto simp: extractItems_def Let_def split: sum.splits if_splits option.splits)

text \<open>
  On the page of the pull requests that shows one release only, the extractor of pull
  requests finds nothing, the item comes from the extractor of releases, and the result
  is labelled as pull requests.
\<close>

theorem C10_label_from_classification_witness:
  "specific release_on_pulls (detectPage release_on_pulls) = Inr [] \<and>
   releases release_on_pulls (document release_on_pulls) =
     Inr [\<lparr>title = ''v1.1'', url = ''https://github.com/acme/widgets/releases/tag/v1.1'',
            number = None\<rparr>] \<and>
   (\<exists>r. extractItems release_on_pulls = Inr r \<and>
        items r = [\<lparr>title = ''v1.1'', url = ''https://github.com/acme/widgets/releases/tag/v1.1'',
                     number = None\<rparr>] \<and>
        pageLabel r = Some ''Pull Requests'' \<and> pageType r = Some ''issueOrPr'')"
proof -
  have s: "specific release_on_pulls (detectPage release_on_pulls) = Inr []" by code_simp
  have rl: "releases release_on_pulls (document release_on_pulls) =
     Inr [\<lparr>title = ''v1.1'', url = ''https://github.com/acme/widgets/releases/tag/v1.1'',
            number = None\<rparr>]"
    by code_simp
  have d: "detectPage release_on_pulls =
      \<lparr>page_type = Some ''issueOrPr'', page_label = ''Pull Requests''\<rparr>"
    by code_simp
  have "map_sum id (\<lambda>r. (success r, items r)) (extractItems release_on_pulls) =
      Inr (True, [\<lparr>title = ''v1.1'', url = ''https://github.com/acme/widgets/releases/tag/v1.1'',
                     number = None\<rparr>])"
    by code_simp
  then obtain r where r: "extractItems release_on_pulls = Inr r" "success r"
    "items r = [\<lparr>title = ''v1.1'', url = ''https://github.com/acme/widgets/releases/tag/v1.1'',
                     number = None\<rparr>]"
    by (cases "extractItems release_on_pulls") auto
  from C10_label_from_classification[OF r(1) r(2) s]
  have "pageLabel r = Some ''Pull Requests'' \<and> pageType r = Some ''issueOrPr''"
    by (simp add: d)
  with r s rl show ?thesis by blast
qed

section \<open>C9: the result depends on what the script reads only\<close>

lemma links_body_cong:
  assumes "same_view a b" and "location w1 = location w2" and "new_URL w1 = new_URL w2"
  shows "links_body w1 pat seen a = links_body w2 pat seen b"
proof -
  from assms(1) have e: "getAttribute a ''href'' = getAttribute b ''href''"
    "trim (textContent a) = trim (textContent b)"
    by (simp_all add: same_view_def)
  show ?thesis unfolding links_body_def e assms(2,3) ..
qed

lemma links_loop_cong:
  assumes "list_all2 same_view l1 l2" and "location w1 = location w2"
    and "new_URL w1 = new_URL w2"
  shows "links_loop w1 pat l1 st = links_loop w2 pat l2 st"
  using assms(1)
proof (induction arbitrary: st rule: list_all2_induct)
  case Nil
  show ?case by (cases st) simp
next
  case (Cons a l1 b l2)
  obtain seen acc where st: "st = (seen, acc)" by (cases st)
  from links_body_cong[OF Cons.hyps(1) assms(2,3)]
  have "links_body w1 pat seen a = links_body w2 pat seen b" .
  with Cons.IH show ?case
    unfolding st by (simp split: sum.splits option.splits prod.splits)
qed

lemma selectors_loop_cong:
  assumes "\<forall>sel. list_all2 same_view (querySelectorAll d1 sel) (querySelectorAll d2 sel)"
    and "location w1 = location w2" and "new_URL w1 = new_URL w2"
  shows "selectors_loop w1 d1 pat sels st = selectors_loop w2 d2 pat sels st"
proof (induction sels arbitrary: st)
  case Nil
  show ?case by simp
next
  case (Cons sel sels)
  from assms(1) have "list_all2 same_view (querySelectorAll d1 sel) (querySelectorAll d2 sel)"
    by blast
  from links_loop_cong[OF this assms(2,3)]
  have "links_loop w1 pat (querySelectorAll d1 sel) st = links_loop w2 pat (querySelectorAll d2 sel) st" .
  with Cons.IH show ?case by (simp split: sum.splits)
qed

lemma extractLinks_cong:
  assumes "\<forall>sel. list_all2 same_view (querySelectorAll d1 sel) (querySelectorAll d2 sel)"
    and "location w1 = location w2" and "new_URL w1 = new_URL w2"
  shows "extractLinks w1 d1 sels pat = extractLinks w2 d2 sels pat"
  unfolding extractLinks_def selectors_loop_cong[OF assms] ..

lemma extractor_cong:
  assumes "map_of EXTRACTORS key = Some extractor"
    and "\<forall>sel. list_all2 same_view (querySelectorAll d1 sel) (querySelectorAll d2 sel)"
    and "location w1 = location w2" and "new_URL w1 = new_URL w2"
  shows "extractor w1 d1 = extractor w2 d2"
proof -
  note c = extractLinks_cong[OF assms(2,3,4)]
  from map_of_SomeD[OF assms(1)] have "extractor \<in> snd ` set EXTRACTORS" by force
  then have "extractor \<in> {issueOrPr, milestone, milestonesList, projects, repositories,
      releases, tags, branches, discussions, commits, actions, packages, gists}"
    by (simp add: EXTRACTORS_def)
  then show ?thesis
    unfolding insert_iff empty_iff
  proof (elim disjE FalseE)
    assume "extractor = issueOrPr" then show ?thesis unfolding issueOrPr_def by (simp only: c)
  next
    assume "extractor = milestone" then show ?thesis unfolding milestone_def by (simp only: c)
  next
    assume "extractor = milestonesList" then show ?thesis unfolding milestonesList_def by (simp only: c)
  next
    assume "extractor = projects" then show ?thesis unfolding projects_def by (simp only: c)
  next
    assume "extractor = repositories" then show ?thesis unfolding repositories_def by (simp only: c)
  next
    assume "extractor = releases" then show ?thesis unfolding releases_def by (simp only: c)
  next
    assume "extractor = tags" then show ?thesis unfolding tags_def by (simp only: c)
  next
    assume "extractor = branches" then show ?thesis unfolding branches_def by (simp only: c)
  next
    assume "extractor = discussions" then show ?thesis unfolding discussions_def by (simp only: c)
  next
    assume "extractor = commits" then show ?thesis unfolding commits_def by (simp only: c)
  next
    assume "extractor = actions" then show ?thesis unfolding actions_def by (simp only: c)
  next
    assume "extractor = packages" then show ?thesis unfolding packages_def by (simp only: c)
  next
    assume "extractor = gists" then show ?thesis unfolding gists_def by (simp only: c)
  qed
qed

lemma try_all_cong:
  assumes "\<forall>sel. list_all2 same_view (querySelectorAll (document w1) sel)
                     (querySelectorAll (document w2) sel)"
    and "location w1 = location w2" and "new_URL w1 = new_URL w2"
  shows "try_all keys w1 acc = try_all keys w2 acc"
proof (induction keys arbitrary: acc)
  case Nil
  show ?case by simp
next
  case (Cons key keys)
  show ?case
  proof (cases "map_of EXTRACTORS key")
    case None
    then show ?thesis by simp
  next
    case (Some extractor)
    from extractor_cong[OF Some assms]
    have "extractor w1 (document w1) = extractor w2 (document w2)" .
    with Some Cons.IH show ?thesis by (simp split: sum.splits)
  qed
qed

lemma specific_cong:
  assumes "\<forall>sel. list_all2 same_view (querySelectorAll (document w1) sel)
                     (querySelectorAll (document w2) sel)"
    and "location w1 = location w2" and "new_URL w1 = new_URL w2"
  shows "specific w1 pg = specific w2 pg"
proof -
  have "\<And>k extractor. map_of EXTRACTORS k = Some extractor \<Longrightarrow>
      extractor w1 (document w1) = extractor w2 (document w2)"
    by (rule extractor_cong[OF _ assms])
  then show ?thesis
    by (simp add: specific_def split: option.splits)
qed

lemma generic_body_cong:
  assumes "same_view a b" and "location w1 = location w2" and "new_URL w1 = new_URL w2"
  shows "generic_body w1 seen a = generic_body w2 seen b"
proof -
  from assms(1) have e: "getAttribute a ''href'' = getAttribute b ''href''"
    "trim (textContent a) = trim (textContent b)"
    "contains (classList a) ''Link--primary'' = contains (classList b) ''Link--primary''"
    "contains (classList a) ''markdown-title'' = contains (classList b) ''markdown-title''"
    "contains (classList a) ''js-navigation-open'' = contains (classList b) ''js-navigation-open''"
    "hasAttribute a ''data-hovercard-type'' = hasAttribute b ''data-hovercard-type''"
    "closest a ''h1, h2, h3, h4'' = closest b ''h1, h2, h3, h4''"
    \<open>closest a ''.Box-row, [role='row'], .js-issue-row, [id^='issue_'], [data-testid], article'' =
     closest b ''.Box-row, [role='row'], .js-issue-row, [id^='issue_'], [data-testid], article''\<close>
    unfolding same_view_def by blast+
  show ?thesis unfolding generic_body_def e assms(2,3) ..
qed

lemma generic_loop_cong:
  assumes "list_all2 same_view l1 l2" and "location w1 = location w2"
    and "new_URL w1 = new_URL w2"
  shows "generic_loop w1 l1 st = generic_loop w2 l2 st"
  using assms(1)
proof (induction arbitrary: st rule: list_all2_induct)
  case Nil
  show ?case by (cases st) simp
next
  case (Cons a l1 b l2)
  obtain seen acc where st: "st = (seen, acc)" by (cases st)
  from generic_body_cong[OF Cons.hyps(1) assms(2,3)]
  have "generic_body w1 seen a = generic_body w2 seen b" .
  with Cons.IH show ?case
    unfolding st by (simp split: option.splits prod.splits)
qed

lemma genericExtract_cong:
  assumes "\<forall>sel. list_all2 same_view (querySelectorAll d1 sel) (querySelectorAll d2 sel)"
    and "location w1 = location w2" and "new_URL w1 = new_URL w2"
  shows "genericExtract w1 d1 = genericExtract w2 d2"
proof -
  from assms(1) have "list_all2 same_view
      (querySelectorAll d1 (join '', '' generic_selectors))
      (querySelectorAll d2 (join '', '' generic_selectors))"
    by blast
  from generic_loop_cong[OF this assms(2,3)] show ?thesis
    by (simp add: genericExtract_def)
qed

text \<open>
  C9. \<open>extractItems\<close> is a function of the window alone: it keeps no state from one call
  to the next, and no pattern it uses carries the flag \<open>g\<close> or \<open>y\<close>. Moreover its result
  depends on the window only through what the script reads: two windows with the same
  location and the same URL constructor, whose documents answer every selector with
  elements that look the same to the script, give the same result, be it a record or
  an exception. Two calls on one document and one location are the case of one window.
\<close>

theorem C9_determinism:
  assumes "\<forall>sel. list_all2 same_view (querySelectorAll (document w1) sel)
                     (querySelectorAll (document w2) sel)"
    and "location w1 = location w2" and "new_URL w1 = new_URL w2"
  shows "extractItems w1 = extractItems w2"
proof -
  have d: "detectPage w1 = detectPage w2" by (simp add: detectPage_def assms(2))
  have c: "getContextInfo w1 = getContextInfo w2" by (simp add: getContextInfo_def assms(2))
  have s: "\<And>pg. specific w1 pg = specific w2 pg"
    by (rule specific_cong[OF assms])
  have t: "\<And>acc. try_all (map fst EXTRACTORS) w1 acc = try_all (map fst EXTRACTORS) w2 acc"
    by (rule try_all_cong[OF assms])
  have g: "genericExtract w1 (document w1) = genericExtract w2 (document w2)"
    by (rule genericExtract_cong[OF assms])
  show ?thesis
    unfolding extractItems_def d c s t g assms(2) ..
qed

text \<open>
  The two renderings of the pull-request list differ in the classes of the anchors and
  in the white space around their text; the result is the same, and the same as that of
  a second call on the first rendering.
\<close>

theorem C9_determinism_witness:
  "extractItems scenario_A = extractItems scenario_A' \<and>
   extractItems scenario_A = extractItems scenario_A \<and>
   map_sum id (\<lambda>r. map title (items r)) (extractItems scenario_A') =
     Inr [''Fix bug'', ''Add feature'']"
proof -
  have rows: "list_all2 same_view
      [pr_row ''/acme/widgets/pull/1'' ''Fix bug'',
       pr_row ''/acme/widgets/pull/2'' ''Add feature'',
       pr_row ''/acme/widgets/pull/1'' ''Fix bug'']
      [pr_row' ''/acme/widgets/pull/1'' ''Fix bug'',
       pr_row' ''/acme/widgets/pull/2'' ''Add feature'',
       pr_row' ''/acme/widgets/pull/1'' ''Fix bug'']"
    by code_simp
  have a: "\<forall>sel. list_all2 same_view (querySelectorAll (document scenario_A) sel)
                     (querySelectorAll (document scenario_A') sel)"
    using rows by (simp add: scenario_A_def scenario_A'_def github_page_def Let_def)
  have l: "location scenario_A = location scenario_A'"
    by (simp add: scenario_A_def scenario_A'_def github_page_def Let_def)
  have u: "new_URL scenario_A = new_URL scenario_A'"
    by (simp add: scenario_A_def scenario_A'_def github_page_def Let_def)
  have r: "\<forall>sel. list_all2 same_view (querySelectorAll (document scenario_A) sel)
                     (querySelectorAll (document scenario_A) sel)"
    by (simp add: list_all2_same same_view_def)
  have t: "map_sum id (\<lambda>r. map title (items r)) (extractItems scenario_A') =
     Inr [''Fix bug'', ''Add feature'']"
    by code_simp
  from C9_determinism[OF a l u] C9_determinism[OF r refl refl] t show ?thesis by blast
qed

section \<open>C6: the number of an item\<close>

lemma advance_rest [simp]: "rest (advance n st) = drop n (rest st)"
proof (induction n arbitrary: st)
  case 0
  show ?case by simp
next
  case (Suc n)
  show ?case by (cases "rest st") (simp_all add: Suc.IH)
qed

lemma advance_caps [simp]: "caps (advance n st) = caps st"
proof (induction n arbitrary: st)
  case 0
  show ?case by simp
next
  case (Suc n)
  show ?case by (cases "rest st") (simp_all add: Suc.IH)
qed

lemma starts_with_iff: "starts_with False l s \<longleftrightarrow> (\<exists>t. s = l @ t)"
  by (induction "False" l s rule: starts_with.induct) (auto simp: canonicalize_def)

lemma rmatch_cap_plus_Nil:
  "rmatch ic (Cap k (Plus c)) st = [] \<longleftrightarrow> takeWhile (in_class c) (rest st) = []"
  by (cases "takeWhile (in_class c) (rest st)") auto

lemma rmatch_cap_plus_hd:
  assumes "takeWhile (in_class c) (rest st) \<noteq> []"
  shows "caps (hd (rmatch ic (Cap k (Plus c)) st)) =
           (k, takeWhile (in_class c) (rest st)) # caps st"
proof -
  define n where "n = length (takeWhile (in_class c) (rest st))"
  from assms have n: "0 < n" by (simp add: n_def)
  have le: "n \<le> length (rest st)" unfolding n_def by (rule length_takeWhile_le)
  have tk: "take n (rest st) = takeWhile (in_class c) (rest st)"
    unfolding n_def by (rule takeWhile_eq_take[symmetric])
  from n have "rev [1 ..< Suc n] = n # rev [1 ..< n]" by simp
  then have "hd (rmatch ic (Cap k (Plus c)) st) =
      (advance n st)\<lparr>caps := (k, take (length (rest st) - length (rest (advance n st))) (rest st))
                              # caps (advance n st)\<rparr>"
    by (simp add: n_def[symmetric])
  with le tk show ?thesis by simp
qed

lemma rmatch_numberRe_pull:
  "rmatch False (source numberRe) \<lparr>prev = p, rest = ''/pull/'' @ t, caps = c\<rparr> =
     rmatch False (Cap 1 (Plus Digit)) \<lparr>prev = Some CHR ''/'', rest = t, caps = c\<rparr>"
  by (simp add: numberRe_def canonicalize_def)

lemma rmatch_numberRe_issues:
  "rmatch False (source numberRe) \<lparr>prev = p, rest = ''/issues/'' @ t, caps = c\<rparr> =
     rmatch False (Cap 1 (Plus Digit)) \<lparr>prev = Some CHR ''/'', rest = t, caps = c\<rparr>"
  by (simp add: numberRe_def canonicalize_def)


lemma rmatch_numberRe_other:
  assumes "\<not> starts_with False ''/pull/'' s" and "\<not> starts_with False ''/issues/'' s"
  shows "rmatch False (source numberRe) \<lparr>prev = p, rest = s, caps = c\<rparr> = []"
proof -
  have a: "\<And>x y st. rmatch False (Seq (Lit x) y) st =
      (if starts_with False x (rest st) then rmatch False y (advance (length x) st) else [])"
    by simp
  have b: "\<And>x y z st. rmatch False (Seq (Alt x y) z) st =
      rmatch False (Seq x z) st @ rmatch False (Seq y z) st"
    by simp
  have sw: "\<And>x y u. starts_with False x u \<and> starts_with False y (drop (length x) u) \<longleftrightarrow>
      starts_with False (x @ y) u"
    by (auto simp: starts_with_iff)
  have p: "\<not> (starts_with False ''/'' s \<and> starts_with False ''pull'' (drop 1 s) \<and>
      starts_with False ''/'' (drop 5 s))"
    using assms(1) sw[of "''/''" s "''pull''"] sw[of "''/pull''" s "''/''"]
    by (auto simp add: eval_nat_numeral)
  have i: "\<not> (starts_with False ''/'' s \<and> starts_with False ''issues'' (drop 1 s) \<and>
      starts_with False ''/'' (drop 7 s))"
    using assms(2) sw[of "''/''" s "''issues''"] sw[of "''/issues''" s "''/''"]
    by (auto simp add: eval_nat_numeral)
  show ?thesis
    unfolding numberRe_def RegExp.sel Seqs.simps Alts.simps a b
    using p i
    by (simp add: eval_nat_numeral del: rmatch.simps starts_with.simps advance.simps)
qed


lemma in_class_Digit: "in_class Digit = isDigit"
  by (rule ext) simp

lemma case_list_hd: "l \<noteq> [] \<Longrightarrow> (case l of [] \<Rightarrow> a | m # ms \<Rightarrow> g m) = g (hd l)"
  by (cases l) simp_all

lemma rmatch_number_at:
  "(case rmatch False (source numberRe) \<lparr>prev = p, rest = s, caps = []\<rparr> of
      [] \<Rightarrow> None
    | m # ms \<Rightarrow> Some (map_of (caps m) 1)) = map_option Some (number_at s)"
proof -
  let ?r = "rmatch False (source numberRe) \<lparr>prev = p, rest = s, caps = []\<rparr>"
  have digits: "\<And>t q. takeWhile isDigit t \<noteq> [] \<Longrightarrow>
      (case rmatch False (Cap 1 (Plus Digit)) \<lparr>prev = q, rest = t, caps = []\<rparr> of
         [] \<Rightarrow> None | m # ms \<Rightarrow> Some (map_of (caps m) 1)) = Some (Some (takeWhile isDigit t))"
  proof -
    fix t q assume t: "takeWhile isDigit t \<noteq> []"
    let ?st = "\<lparr>prev = q, rest = t, caps = []\<rparr>"
    from t have t': "takeWhile (in_class Digit) (rest ?st) \<noteq> []"
      by (simp add: in_class_Digit)
    then have ne: "rmatch False (Cap 1 (Plus Digit)) ?st \<noteq> []"
      by (simp only: rmatch_cap_plus_Nil not_False_eq_True)
    from rmatch_cap_plus_hd[OF t', of False 1]
    have "caps (hd (rmatch False (Cap 1 (Plus Digit)) ?st)) = [(1, takeWhile isDigit t)]"
      by (simp add: in_class_Digit)
    then show "(case rmatch False (Cap 1 (Plus Digit)) ?st of
         [] \<Rightarrow> None | m # ms \<Rightarrow> Some (map_of (caps m) 1)) = Some (Some (takeWhile isDigit t))"
      by (simp only: case_list_hd[OF ne]) (simp add: in_class_Digit)
  qed
  have nodigits: "\<And>t q. takeWhile isDigit t = [] \<Longrightarrow>
      rmatch False (Cap 1 (Plus Digit)) \<lparr>prev = q, rest = t, caps = []\<rparr> = []"
  proof -
    fix t q assume "takeWhile isDigit t = []"
    then have "takeWhile (in_class Digit) (rest \<lparr>prev = q, rest = t, caps = []\<rparr>) = []"
      by (simp add: in_class_Digit)
    then show "rmatch False (Cap 1 (Plus Digit)) \<lparr>prev = q, rest = t, caps = []\<rparr> = []"
      by (simp only: rmatch_cap_plus_Nil)
  qed
  consider (pull) t where "s = ''/pull/'' @ t"
    | (issues) t where "s = ''/issues/'' @ t"
    | (other) "\<not> starts_with False ''/pull/'' s" "\<not> starts_with False ''/issues/'' s"
    by (auto simp: starts_with_iff)
  then show ?thesis
  proof cases
    case pull
    have sw: "starts_with False ''/pull/'' s" unfolding pull by (simp add: starts_with_iff)
    have d: "drop 6 s = t" unfolding pull by simp
    have r: "?r = rmatch False (Cap 1 (Plus Digit)) \<lparr>prev = Some CHR ''/'', rest = t, caps = []\<rparr>"
      unfolding pull by (rule rmatch_numberRe_pull)
    have ni: "\<not> starts_with False ''/issues/'' s" unfolding pull by (simp add: canonicalize_def)
    show ?thesis
    proof (cases "takeWhile isDigit t = []")
      case True
      with sw d ni nodigits[OF True] show ?thesis by (simp add: r number_at_def)
    next
      case False
      with sw d digits[OF False] show ?thesis by (simp add: r number_at_def)
    qed
  next
    case issues
    have sw: "starts_with False ''/issues/'' s" unfolding issues by (simp add: starts_with_iff)
    have d: "drop 8 s = t" unfolding issues by simp
    have r: "?r = rmatch False (Cap 1 (Plus Digit)) \<lparr>prev = Some CHR ''/'', rest = t, caps = []\<rparr>"
      unfolding issues by (rule rmatch_numberRe_issues)
    have ni: "\<not> starts_with False ''/pull/'' s" unfolding issues by (simp add: canonicalize_def)
    show ?thesis
    proof (cases "takeWhile isDigit t = []")
      case True
      with sw d ni nodigits[OF True] show ?thesis by (simp add: r number_at_def)
    next
      case False
      with sw d ni digits[OF False] show ?thesis by (simp add: r number_at_def)
    qed
  next
    case other
    from rmatch_numberRe_other[OF other] other show ?thesis by (simp add: number_at_def)
  qed
qed

lemma exec_from_number:
  "(case exec_from numberRe p s of None \<Rightarrow> None | Some m \<Rightarrow> Some (map_of (caps m) 1)) =
     map_option Some (first_number s)"
proof (induction s arbitrary: p)
  case Nil
  have ic: "ignoreCase numberRe = False" by (simp add: numberRe_def)
  have "number_at [] = None" by (simp add: number_at_def)
  with rmatch_number_at[of p "[]"] show ?case
    by (simp add: ic split: list.splits)
next
  case (Cons c cs)
  have ic: "ignoreCase numberRe = False" by (simp add: numberRe_def)
  from rmatch_number_at[of p "c # cs"] Cons.IH[of "Some c"] show ?case
    by (auto simp add: ic split: list.splits option.splits)
qed

lemma extractNumber_first_number:
  "extractNumber h = map_option ((@) ''#'') (first_number h)"
proof (cases "exec_from numberRe None h")
  case None
  with exec_from_number[of None h] have "first_number h = None" by simp
  with None show ?thesis by (simp add: extractNumber_def str_match_def exec_def)
next
  case (Some m)
  with exec_from_number[of None h] have "map_option Some (first_number h) = Some (map_of (caps m) 1)"
    by simp
  then obtain d where d: "first_number h = Some d" "map_of (caps m) 1 = Some d"
    by (cases "first_number h") auto
  with Some show ?thesis by (simp add: extractNumber_def str_match_def exec_def)
qed


lemma takeWhile_Nil_iff: "takeWhile P t = [] \<longleftrightarrow> (\<forall>d u. t = d # u \<longrightarrow> \<not> P d)"
  by (cases t) auto

lemma number_at_None_iff:
  "number_at s = None \<longleftrightarrow>
     \<not> (\<exists>seg d post. (seg = ''/pull/'' \<or> seg = ''/issues/'') \<and> s = seg @ d # post \<and> isDigit d)"
proof
  assume n: "number_at s = None"
  show "\<not> (\<exists>seg d post. (seg = ''/pull/'' \<or> seg = ''/issues/'') \<and> s = seg @ d # post \<and> isDigit d)"
  proof
    assume "\<exists>seg d post. (seg = ''/pull/'' \<or> seg = ''/issues/'') \<and> s = seg @ d # post \<and> isDigit d"
    then obtain seg d post where
      seg: "seg = ''/pull/'' \<or> seg = ''/issues/''" and s: "s = seg @ d # post" and d: "isDigit d"
      by blast
    from seg show False
    proof
      assume "seg = ''/pull/''"
      with s d have "starts_with False ''/pull/'' s" "takeWhile isDigit (drop 6 s) \<noteq> []"
        by (simp_all add: starts_with_iff)
      with n show False by (simp add: number_at_def)
    next
      assume "seg = ''/issues/''"
      with s d have "starts_with False ''/issues/'' s" "takeWhile isDigit (drop 8 s) \<noteq> []"
        by (simp_all add: starts_with_iff)
      with n show False by (simp add: number_at_def split: if_splits)
    qed
  qed
next
  assume a: "\<not> (\<exists>seg d post. (seg = ''/pull/'' \<or> seg = ''/issues/'') \<and> s = seg @ d # post \<and> isDigit d)"
  have p: "\<not> (starts_with False ''/pull/'' s \<and> takeWhile isDigit (drop 6 s) \<noteq> [])"
  proof
    assume "starts_with False ''/pull/'' s \<and> takeWhile isDigit (drop 6 s) \<noteq> []"
    then obtain t where t: "s = ''/pull/'' @ t" "takeWhile isDigit t \<noteq> []"
      by (auto simp: starts_with_iff)
    then obtain d u where "t = d # u" "isDigit d" by (auto simp: takeWhile_Nil_iff)
    with t a show False by blast
  qed
  have i: "\<not> (starts_with False ''/issues/'' s \<and> takeWhile isDigit (drop 8 s) \<noteq> [])"
  proof
    assume "starts_with False ''/issues/'' s \<and> takeWhile isDigit (drop 8 s) \<noteq> []"
    then obtain t where t: "s = ''/issues/'' @ t" "takeWhile isDigit t \<noteq> []"
      by (auto simp: starts_with_iff)
    then obtain d u where "t = d # u" "isDigit d" by (auto simp: takeWhile_Nil_iff)
    with t a show False by blast
  qed
  from p i show "number_at s = None" by (simp add: number_at_def)
qed

lemma number_at_Some:
  assumes "seg = ''/pull/'' \<or> seg = ''/issues/''" and "ds \<noteq> []" and "list_all isDigit ds"
    and "\<forall>c cs. post = c # cs \<longrightarrow> \<not> isDigit c"
  shows "number_at (seg @ ds @ post) = Some ds"
proof -
  from assms(4) have "takeWhile isDigit post = []" by (simp add: takeWhile_Nil_iff)
  with assms(3) have tw: "takeWhile isDigit (ds @ post) = ds"
    by (simp add: list_all_iff takeWhile_append2)
  from assms(1) show ?thesis
  proof
    assume seg: "seg = ''/pull/''"
    have sp: "starts_with False ''/pull/'' (''/pull/'' @ ds @ post)"
      by (simp only: starts_with_iff) blast
    have dr: "drop 6 (''/pull/'' @ ds @ post) = ds @ post" by simp
    show ?thesis
      unfolding seg number_at_def using sp dr tw assms(2)
      by (simp del: starts_with.simps)
  next
    assume seg: "seg = ''/issues/''"
    have np: "\<not> starts_with False ''/pull/'' (''/issues/'' @ ds @ post)"
      by (simp add: canonicalize_def)
    have si: "starts_with False ''/issues/'' (''/issues/'' @ ds @ post)"
      by (simp only: starts_with_iff) blast
    have dr: "drop 8 (''/issues/'' @ ds @ post) = ds @ post" by simp
    show ?thesis
      unfolding seg number_at_def using np si dr tw assms(2)
      by (simp del: starts_with.simps)
  qed
qed

lemma first_number_None_iff:
  "first_number h = None \<longleftrightarrow>
     \<not> (\<exists>pre seg d post. h = pre @ seg @ d # post \<and> (seg = ''/pull/'' \<or> seg = ''/issues/'') \<and>
          isDigit d)"
proof (induction h)
  case Nil
  show ?case by simp
next
  case (Cons c cs)
  let ?shape = "\<lambda>h. \<exists>pre seg d post. h = pre @ seg @ d # post \<and>
      (seg = ''/pull/'' \<or> seg = ''/issues/'') \<and> isDigit d"
  have "?shape (c # cs) \<longleftrightarrow> number_at (c # cs) \<noteq> None \<or> ?shape cs"
  proof
    assume "?shape (c # cs)"
    then obtain pre seg d post where
      h: "c # cs = pre @ seg @ d # post" and seg: "seg = ''/pull/'' \<or> seg = ''/issues/''"
      and d: "isDigit d"
      by blast
    show "number_at (c # cs) \<noteq> None \<or> ?shape cs"
    proof (cases pre)
      case Nil
      with h seg d have "number_at (c # cs) \<noteq> None"
        unfolding number_at_None_iff by auto
      then show ?thesis ..
    next
      case (Cons a pre')
      with h have "cs = pre' @ seg @ d # post" by simp
      with seg d have "?shape cs" by blast
      then show ?thesis ..
    qed
  next
    assume "number_at (c # cs) \<noteq> None \<or> ?shape cs"
    then show "?shape (c # cs)"
    proof
      assume "number_at (c # cs) \<noteq> None"
      then obtain seg d post where "seg = ''/pull/'' \<or> seg = ''/issues/''"
        "c # cs = seg @ d # post" "isDigit d"
        unfolding number_at_None_iff by blast
      then have "c # cs = [] @ seg @ d # post \<and> (seg = ''/pull/'' \<or> seg = ''/issues/'') \<and> isDigit d"
        by simp
      then show ?thesis by blast
    next
      assume "?shape cs"
      then obtain pre seg d post where
        "cs = pre @ seg @ d # post" "seg = ''/pull/'' \<or> seg = ''/issues/''" "isDigit d"
        by blast
      then have "c # cs = (c # pre) @ seg @ d # post \<and> (seg = ''/pull/'' \<or> seg = ''/issues/'') \<and>
          isDigit d"
        by simp
      then show ?thesis by blast
    qed
  qed
  with Cons.IH show ?case by (auto split: option.splits)
qed


lemma segment_overlap:
  assumes "x \<noteq> []" and "isDigit d"
    and "seg = ''/pull/'' \<or> seg = ''/issues/''" and "seg' = ''/pull/'' \<or> seg' = ''/issues/''"
    and "x @ seg @ t = seg' @ d # post"
  shows "\<exists>u. x = seg' @ d # u"
proof -
  have 1: "x @ ''/pull/'' @ t = ''/pull/'' @ d # post \<Longrightarrow> \<exists>u. x = ''/pull/'' @ d # u"
    using assms(1,2) by (auto simp: append_eq_Cons_conv Cons_eq_append_conv isDigit_def)
  have 2: "x @ ''/issues/'' @ t = ''/pull/'' @ d # post \<Longrightarrow> \<exists>u. x = ''/pull/'' @ d # u"
    using assms(1,2) by (auto simp: append_eq_Cons_conv Cons_eq_append_conv isDigit_def)
  have 3: "x @ ''/pull/'' @ t = ''/issues/'' @ d # post \<Longrightarrow> \<exists>u. x = ''/issues/'' @ d # u"
    using assms(1,2) by (auto simp: append_eq_Cons_conv Cons_eq_append_conv isDigit_def)
  have 4: "x @ ''/issues/'' @ t = ''/issues/'' @ d # post \<Longrightarrow> \<exists>u. x = ''/issues/'' @ d # u"
    using assms(1,2) by (auto simp: append_eq_Cons_conv Cons_eq_append_conv isDigit_def)
  from assms(3,4,5) 1 2 3 4 show ?thesis by blast
qed

lemma number_at_prefix:
  assumes "x \<noteq> []" and "seg = ''/pull/'' \<or> seg = ''/issues/''"
    and "number_at x = None"
  shows "number_at (x @ seg @ t) = None"
proof (rule ccontr)
  assume "number_at (x @ seg @ t) \<noteq> None"
  then obtain seg' d post where
    s: "seg' = ''/pull/'' \<or> seg' = ''/issues/''" and e: "x @ seg @ t = seg' @ d # post"
    and d: "isDigit d"
    unfolding number_at_None_iff by blast
  from segment_overlap[OF assms(1) d assms(2) s e] obtain u where "x = seg' @ d # u" ..
  with s d have "number_at x \<noteq> None" unfolding number_at_None_iff by blast
  with assms(3) show False by simp
qed

lemma first_number_append:
  assumes "seg = ''/pull/'' \<or> seg = ''/issues/''" and "ds \<noteq> []" and "list_all isDigit ds"
    and "\<forall>c cs. post = c # cs \<longrightarrow> \<not> isDigit c"
  shows "first_number pre = None \<Longrightarrow> first_number (pre @ seg @ ds @ post) = Some ds"
proof (induction pre)
  case Nil
  from assms(1) obtain c cs where "seg = c # cs" by auto
  with number_at_Some[OF assms] show ?case by simp
next
  case (Cons a pre)
  from Cons.prems have n: "number_at (a # pre) = None" and f: "first_number pre = None"
    by (simp_all split: option.splits)
  from number_at_prefix[OF _ assms(1) n, of "ds @ post"]
  have "number_at ((a # pre) @ seg @ ds @ post) = None" by simp
  with Cons.IH[OF f] show ?case by simp
qed

text \<open>
  What \<open>extractNumber\<close> reads off a string. If the string holds \<^verbatim>\<open>/pull/\<close> or
  \<^verbatim>\<open>/issues/\<close> followed by digits, the result is \<^verbatim>\<open>#\<close> and the digits that
  follow the first such place, up to the first character that is no digit; and the
  result is absent exactly when the string holds no such place.
\<close>

lemma extractNumber_shape:
  "(\<forall>pre seg ds post.
      (seg = ''/pull/'' \<or> seg = ''/issues/'') \<longrightarrow> ds \<noteq> [] \<longrightarrow> list_all isDigit ds \<longrightarrow>
      (\<forall>c cs. post = c # cs \<longrightarrow> \<not> isDigit c) \<longrightarrow> extractNumber pre = None \<longrightarrow>
      extractNumber (pre @ seg @ ds @ post) = Some (''#'' @ ds)) \<and>
   (\<forall>h. extractNumber h = None \<longleftrightarrow>
      \<not> (\<exists>pre seg d post. h = pre @ seg @ d # post \<and>
            (seg = ''/pull/'' \<or> seg = ''/issues/'') \<and> isDigit d))"
proof (intro conjI allI impI)
  fix pre seg ds post
  assume a: "seg = ''/pull/'' \<or> seg = ''/issues/''" "ds \<noteq> []" "list_all isDigit ds"
    "\<forall>c cs. post = c # cs \<longrightarrow> \<not> isDigit c"
    and n: "extractNumber pre = None"
  from n have "first_number pre = None" by (simp add: extractNumber_first_number)
  from first_number_append[OF a this]
  show "extractNumber (pre @ seg @ ds @ post) = Some (''#'' @ ds)"
    by (simp add: extractNumber_first_number)
next
  fix h
  show "extractNumber h = None \<longleftrightarrow>
      \<not> (\<exists>pre seg d post. h = pre @ seg @ d # post \<and>
            (seg = ''/pull/'' \<or> seg = ''/issues/'') \<and> isDigit d)"
    using first_number_None_iff[of h] by (simp add: extractNumber_first_number)
qed

text \<open>
  C6. The number of an item is to follow the path that its link resolves to. The handler
  of the inline copy button does so: it calls \<open>extractNumber\<close> on the \<open>pathname\<close> of the
  resolved URL. The collectors call it on the \<open>href\<close> attribute as written (every item
  is made from its link with \<open>number = extractNumber h\<close>, see \<open>made_from\<close>). On the issue
  list whose link has a query that mentions a pull request, the link resolves to the
  path \<^verbatim>\<open>/acme/widgets/labels/bug\<close>, which has no pull-request or issue shape and of
  which \<open>extractNumber\<close> makes no number; yet the item of the extractor of issues and
  pull requests, and that of the generic extractor, have the number \<^verbatim>\<open>#5\<close>.
\<close>

theorem C6_number_from_query:
  "issueOrPr query_link (document query_link) =
     Inr [\<lparr>title = ''Label bug'',
            url = ''https://github.com/acme/widgets/labels/bug?from=/pull/5'',
            number = Some ''#5''\<rparr>] \<and>
   genericExtract query_link (document query_link) =
     [\<lparr>title = ''Label bug'',
        url = ''https://github.com/acme/widgets/labels/bug?from=/pull/5'',
        number = Some ''#5''\<rparr>] \<and>
   map_option pathname
     (new_URL query_link ''/acme/widgets/labels/bug?from=/pull/5''
        (origin (location query_link))) = Some ''/acme/widgets/labels/bug'' \<and>
   map_option (\<lambda>u. extractNumber (pathname u))
     (new_URL query_link ''/acme/widgets/labels/bug?from=/pull/5''
        (origin (location query_link))) = Some None \<and>
   test numberRe ''/acme/widgets/labels/bug'' = False"
  by code_simp

end
